theory Spec2Isabelle
  imports Main
begin

section \<open>Strings\<close>

text \<open>
  Python's \<^verbatim>\<open>str\<close> is a sequence of Unicode code points. The model uses HOL's
  \<^typ>\<open>string\<close>, whose characters are the code points 0 to 255 (Latin-1), so that
  \<^const>\<open>length\<close> and \<^const>\<open>take\<close> count what Python's \<^verbatim>\<open>len\<close> and slicing count.
  Code points above 255 are outside the model. The character classes below are those
  of Python 3 on that range.
\<close>

definition is_space :: "char \<Rightarrow> bool" where
  \<comment> \<open>\<^verbatim>\<open>str.isspace\<close>, the class \<^verbatim>\<open>\s\<close> of \<^verbatim>\<open>re\<close>, and what \<^verbatim>\<open>str.strip()\<close> removes\<close>
  "is_space c =
     (let n = (of_char c :: int)
      in (9 \<le> n \<and> n \<le> 13) \<or> (28 \<le> n \<and> n \<le> 32) \<or> n = 133 \<or> n = 160)"

definition is_word :: "char \<Rightarrow> bool" where
  \<comment> \<open>the class \<^verbatim>\<open>\w\<close> of \<^verbatim>\<open>re\<close> on \<^verbatim>\<open>str\<close> patterns: alphanumeric or underscore\<close>
  "is_word c =
     (let n = (of_char c :: int)
      in (48 \<le> n \<and> n \<le> 57) \<or> (65 \<le> n \<and> n \<le> 90) \<or> n = 95 \<or> (97 \<le> n \<and> n \<le> 122)
         \<or> n = 170 \<or> n = 178 \<or> n = 179 \<or> n = 181 \<or> n = 185 \<or> n = 186
         \<or> (188 \<le> n \<and> n \<le> 190) \<or> (192 \<le> n \<and> n \<le> 214) \<or> (216 \<le> n \<and> n \<le> 246)
         \<or> (248 \<le> n \<and> n \<le> 255))"

definition lower_char :: "char \<Rightarrow> char" where
  "lower_char c =
     (let n = (of_char c :: int)
      in if (65 \<le> n \<and> n \<le> 90) \<or> (192 \<le> n \<and> n \<le> 214) \<or> (216 \<le> n \<and> n \<le> 222)
         then char_of (n + 32) else c)"

definition lower :: "string \<Rightarrow> string" where
  \<comment> \<open>\<^verbatim>\<open>str.lower()\<close>\<close>
  "lower s = map lower_char s"

definition strip_by :: "(char \<Rightarrow> bool) \<Rightarrow> string \<Rightarrow> string" where
  "strip_by P s = rev (dropWhile P (rev (dropWhile P s)))"

definition strip :: "string \<Rightarrow> string" where
  \<comment> \<open>\<^verbatim>\<open>str.strip()\<close>\<close>
  "strip s = strip_by is_space s"

definition nl :: string where
  \<comment> \<open>the string \<^verbatim>\<open>"\n"\<close>\<close>
  "nl = [CHR 0x0A]"

fun join :: "string \<Rightarrow> string list \<Rightarrow> string" where
  \<comment> \<open>\<^verbatim>\<open>sep.join(xs)\<close>\<close>
  "join sep [] = []"
| "join sep [x] = x"
| "join sep (x # y # ys) = x @ sep @ join sep (y # ys)"

fun split_on :: "char \<Rightarrow> string \<Rightarrow> string list" where
  \<comment> \<open>\<^verbatim>\<open>s.split(d)\<close> for a one-character separator\<close>
  "split_on d [] = [[]]"
| "split_on d (c # cs) =
     (if c = d then [] # split_on d cs
      else (case split_on d cs of [] \<Rightarrow> [[c]] | x # xs \<Rightarrow> (c # x) # xs))"

definition digit_char :: "nat \<Rightarrow> char" where
  "digit_char d = char_of (48 + d)"

fun str_nat :: "nat \<Rightarrow> string" where
  \<comment> \<open>\<^verbatim>\<open>str(n)\<close> for a non-negative integer\<close>
  "str_nat n = (if n < 10 then [digit_char n] else str_nat (n div 10) @ [digit_char (n mod 10)])"

declare str_nat.simps [simp del]

section \<open>Tiptap JSON to Markdown\<close>

text \<open>
  A Tiptap node is a JSON object. The fields the converter reads are \<^verbatim>\<open>type\<close>,
  \<^verbatim>\<open>content\<close>, \<^verbatim>\<open>attrs.level\<close>, \<^verbatim>\<open>attrs.language\<close>, \<^verbatim>\<open>text\<close> and \<^verbatim>\<open>marks\<close>;
  an absent \<^verbatim>\<open>type\<close>, \<^verbatim>\<open>text\<close>, \<^verbatim>\<open>content\<close> or \<^verbatim>\<open>marks\<close> reads as the empty
  string or list, as \<^verbatim>\<open>dict.get\<close> with its default does. A mark has a \<^verbatim>\<open>type\<close> and
  an optional \<^verbatim>\<open>attrs.href\<close>.
\<close>

datatype mark = Mark (mark_type: string) (mark_href: "string option")

datatype node =
  Node (n_type: string) (n_content: "node list") (n_level: "int option")
       (n_language: "string option") (n_text: string) (n_marks: "mark list")

definition apply_mark :: "string \<Rightarrow> mark \<Rightarrow> string" where
  \<comment> \<open>the body of the loop \<^verbatim>\<open>for mark in marks\<close>\<close>
  "apply_mark t m =
     (if mark_type m = ''bold'' then ''**'' @ t @ ''**''
      else if mark_type m = ''italic'' then ''*'' @ t @ ''*''
      else if mark_type m = ''link'' then
        ''['' @ t @ ''](''  @ (case mark_href m of None \<Rightarrow> '''' | Some h \<Rightarrow> h) @ '')''
      else if mark_type m = ''code'' then ''`'' @ t @ ''`''
      else t)"

definition is_list_type :: "node \<Rightarrow> bool" where
  "is_list_type c = (n_type c = ''bulletList'' \<or> n_type c = ''orderedList'')"

function (sequential) tiptap_to_markdown :: "node \<Rightarrow> nat \<Rightarrow> nat option \<Rightarrow> string"
  and render_each :: "node list \<Rightarrow> nat \<Rightarrow> string list"
  and render_numbered :: "node list \<Rightarrow> nat \<Rightarrow> nat \<Rightarrow> string list"
  and render_sub_lists :: "node list \<Rightarrow> nat \<Rightarrow> string"
where
  "tiptap_to_markdown (Node ntype content level language txt marks) indent ordered_num =
     (if ntype = ''doc'' then strip (join nl (render_each content 0))
      else if ntype = ''heading'' then
        nl @ replicate (nat (case level of None \<Rightarrow> 1 | Some l \<Rightarrow> l)) CHR ''#'' @ '' ''
           @ concat (render_each content 0) @ nl
      else if ntype = ''paragraph'' then
        (if indent > 0 then concat (render_each content 0)
         else nl @ concat (render_each content 0) @ nl)
      else if ntype = ''bulletList'' then join nl (render_each content indent)
      else if ntype = ''orderedList'' then join nl (render_numbered content indent 1)
      else if ntype = ''listItem'' then
        concat (replicate indent ''  '')
          @ (case ordered_num of None \<Rightarrow> ''-''
             | Some k \<Rightarrow> if k = 0 then ''-'' else str_nat k @ ''.'')
          @ '' '' @ strip (concat (render_each (filter (\<lambda>c. \<not> is_list_type c) content) indent))
          @ render_sub_lists (filter is_list_type content) (indent + 1)
      else if ntype = ''text'' then foldl apply_mark txt marks
      else if ntype = ''horizontalRule'' then nl @ ''---'' @ nl
      else if ntype = ''hardBreak'' then nl
      else if ntype = ''codeBlock'' then
        nl @ ''```'' @ (case language of None \<Rightarrow> '''' | Some l \<Rightarrow> l) @ nl
           @ concat (render_each content 0) @ nl @ ''```'' @ nl
      else if ntype = ''blockquote'' then
        nl @ join nl (map (\<lambda>line. ''> '' @ line)
                        (split_on CHR 0x0A (strip (concat (render_each content 0))))) @ nl
      else concat (render_each content indent))"
| "render_each [] indent = []"
| "render_each (c # cs) indent = tiptap_to_markdown c indent None # render_each cs indent"
| "render_numbered [] indent i = []"
| "render_numbered (c # cs) indent i =
     tiptap_to_markdown c indent (Some i) # render_numbered cs indent (i + 1)"
| "render_sub_lists [] indent = []"
| "render_sub_lists (sl # sls) indent =
     nl @ tiptap_to_markdown sl indent None @ render_sub_lists sls indent"
  by pat_completeness auto

termination
proof -
  have le: "size_list f (filter P xs) \<le> size_list f xs"
    for f :: "node \<Rightarrow> nat" and P and xs
    by (induction xs) auto
  show ?thesis
    by (relation "measure (\<lambda>x. case x of
            Inl (Inl (n, _, _)) \<Rightarrow> size n
          | Inl (Inr (cs, _)) \<Rightarrow> size_list size cs
          | Inr (Inl (cs, _, _)) \<Rightarrow> size_list size cs
          | Inr (Inr (cs, _)) \<Rightarrow> size_list size cs)")
       (auto simp: less_Suc_eq_le le)
qed

definition tiptap_to_markdown_opt :: "node option \<Rightarrow> string" where
  \<comment> \<open>the entry point with its default arguments; \<^verbatim>\<open>None\<close> renders as the empty string\<close>
  "tiptap_to_markdown_opt node = (case node of None \<Rightarrow> '''' | Some n \<Rightarrow> tiptap_to_markdown n 0 None)"

definition text_run :: "string \<Rightarrow> mark list \<Rightarrow> node" where
  \<comment> \<open>the JSON object \<^verbatim>\<open>{"type": "text", "text": t, "marks": ms}\<close>\<close>
  "text_run t ms = Node ''text'' [] None None t ms"

section \<open>Data extraction helpers\<close>

function sub_runs :: "(char \<Rightarrow> bool) \<Rightarrow> string \<Rightarrow> string" where
  \<comment> \<open>\<^verbatim>\<open>re.sub(r"[P]+", "-", s)\<close>: every maximal run of characters of the class
      becomes one hyphen\<close>
  "sub_runs P [] = []"
| "sub_runs P (c # cs) =
     (if P c then CHR ''-'' # sub_runs P (dropWhile P cs) else c # sub_runs P cs)"
  by pat_completeness auto

termination
  by (relation "measure (\<lambda>(P, s). length s)") (auto simp: less_Suc_eq_le length_dropWhile_le)

definition slugify :: "string \<Rightarrow> string" where
  "slugify text0 =
     (let text1 = strip (lower text0);
          text2 = filter (\<lambda>c. is_word c \<or> is_space c \<or> c = CHR ''-'') text1;
          text3 = sub_runs (\<lambda>c. is_space c \<or> c = CHR ''_'') text2;
          text4 = sub_runs (\<lambda>c. c = CHR ''-'') text3
      in take 80 (strip_by (\<lambda>c. c = CHR ''-'') text4))"

text \<open>
  The \<^verbatim>\<open>datetime\<close> module is not part of the repository. Its values are a type
  parameter, and the calls the program makes on them are fields of a record:
  \<^verbatim>\<open>datetime.fromisoformat\<close> (\<open>None\<close> where it raises \<^verbatim>\<open>ValueError\<close> or
  \<^verbatim>\<open>TypeError\<close>), \<^verbatim>\<open>datetime.now()\<close>, \<^verbatim>\<open>strftime\<close>, and
  \<^verbatim>\<open>int((end - start).total_seconds() / 60)\<close>. The regular-expression rewriting of
  \<^verbatim>\<open>html_to_basic_markdown\<close> is a field as well: no property below depends on it.
\<close>

record 'dt library =
  fromisoformat :: "string \<Rightarrow> 'dt option"
  now :: "'dt"
  strftime :: "'dt \<Rightarrow> string \<Rightarrow> string"
  minutes_between :: "'dt \<Rightarrow> 'dt \<Rightarrow> int"
  html_to_basic_markdown :: "string \<Rightarrow> string"

definition parse_datetime :: "'dt library \<Rightarrow> string option \<Rightarrow> 'dt option" where
  "parse_datetime lib dt_string =
     (case dt_string of None \<Rightarrow> None
      | Some s \<Rightarrow> if s = '''' then None else fromisoformat lib s)"

record attendee =
  a_name :: "string option"
  a_full_name :: "string option"  \<comment> \<open>\<^verbatim>\<open>details.person.name.fullName\<close>\<close>
  a_email :: "string option"

definition truthy :: "string option \<Rightarrow> bool" where
  \<comment> \<open>the truth value of \<^verbatim>\<open>d.get(key)\<close> for a string field\<close>
  "truthy v = (case v of None \<Rightarrow> False | Some s \<Rightarrow> s \<noteq> '''')"

definition get_attendee_name :: "attendee \<Rightarrow> string" where
  "get_attendee_name att =
     (if truthy (a_name att) then (case a_name att of None \<Rightarrow> '''' | Some n \<Rightarrow> n)
      else if truthy (a_full_name att) then (case a_full_name att of None \<Rightarrow> '''' | Some n \<Rightarrow> n)
      else (case a_email att of None \<Rightarrow> ''Unknown'' | Some e \<Rightarrow> e))"

text \<open>
  A raw document of the cache. A field of type \<open>option\<close> is \<open>None\<close> when the key is
  absent. \<open>d_cal_start\<close> and \<open>d_cal_end\<close> are
  \<^verbatim>\<open>google_calendar_event.start.dateTime\<close> and \<^verbatim>\<open>google_calendar_event.end.dateTime\<close>.
  Field values are of the types the program expects (a title that is present is a
  string); JSON \<^verbatim>\<open>null\<close> in their place is not modelled.
\<close>

record document =
  d_id :: string
  d_title :: "string option"
  d_updated_at :: "string option"
  d_created_at :: "string option"
  d_deleted_at :: "string option"
  d_was_trashed :: bool
  d_cal_start :: "string option"
  d_cal_end :: "string option"
  d_creator :: "attendee option"
  d_attendees :: "attendee list"
  d_notes_markdown :: "string option"
  d_notes :: "node option"

record panel =
  p_content :: "node option"  \<comment> \<open>\<open>Some\<close> when \<^verbatim>\<open>content\<close> is a non-empty JSON object\<close>
  p_original_content :: string

record meeting =
  m_id :: string
  m_title :: string
  m_date :: string
  m_time :: string
  m_duration_minutes :: "int option"
  m_attendees :: "(string \<times> string) list"  \<comment> \<open>name and email\<close>
  m_folders :: "string list"
  m_notes :: string
  m_summary :: string
  m_updated_at :: string

fun summary_of :: "'dt library \<Rightarrow> panel list \<Rightarrow> string \<Rightarrow> string" where
  \<comment> \<open>the loop over the document's panels, with its \<^verbatim>\<open>break\<close>\<close>
  "summary_of lib [] summary_md = summary_md"
| "summary_of lib (p # ps) summary_md =
     (case p_content p of
        Some c \<Rightarrow> strip (tiptap_to_markdown c 0 None)
      | None \<Rightarrow>
          summary_of lib ps
            (if p_original_content p \<noteq> '''' \<and> summary_md = ''''
             then html_to_basic_markdown lib (p_original_content p) else summary_md))"

definition attendee_entry :: "attendee \<Rightarrow> string \<times> string" where
  "attendee_entry att =
     (get_attendee_name att, (case a_email att of None \<Rightarrow> '''' | Some e \<Rightarrow> e))"

definition extract_meeting_data ::
  "'dt library \<Rightarrow> document \<Rightarrow> (string \<times> (string \<times> panel) list) list \<Rightarrow> string list option
     \<Rightarrow> meeting" where
  "extract_meeting_data lib doc panels folders =
     (let doc_id = d_id doc;
          title = (case d_title doc of None \<Rightarrow> ''Untitled Meeting'' | Some t \<Rightarrow> t);
          has_cal = truthy (d_cal_start doc);
          start_dt0 = (if has_cal then parse_datetime lib (d_cal_start doc)
                       else parse_datetime lib (d_created_at doc));
          duration_minutes =
            (if has_cal then
               (case (start_dt0, parse_datetime lib (d_cal_end doc)) of
                  (Some s, Some e) \<Rightarrow> Some (minutes_between lib s e)
                | _ \<Rightarrow> None)
             else None);
          start_dt = (case start_dt0 of None \<Rightarrow> now lib | Some dt \<Rightarrow> dt);
          attendees =
            (case d_creator doc of None \<Rightarrow> [] | Some c \<Rightarrow> [attendee_entry c])
              @ map attendee_entry (d_attendees doc);
          notes0 = (case d_notes_markdown doc of None \<Rightarrow> '''' | Some n \<Rightarrow> n);
          notes_md =
            (if notes0 = '''' then
               (case d_notes doc of None \<Rightarrow> notes0 | Some n \<Rightarrow> tiptap_to_markdown n 0 None)
             else notes0);
          doc_panels = (case map_of panels doc_id of None \<Rightarrow> [] | Some ps \<Rightarrow> ps)
      in \<lparr> m_id = doc_id,
           m_title = title,
           m_date = strftime lib start_dt ''%Y-%m-%d'',
           m_time = strftime lib start_dt ''%H:%M'',
           m_duration_minutes = duration_minutes,
           m_attendees = attendees,
           m_folders = (case folders of None \<Rightarrow> [] | Some fs \<Rightarrow> fs),
           m_notes = strip notes_md,
           m_summary = summary_of lib (map snd doc_panels) '''',
           m_updated_at = (case d_updated_at doc of None \<Rightarrow> '''' | Some u \<Rightarrow> u) \<rparr>)"

record utterance =
  u_source :: "string option"
  u_text :: string  \<comment> \<open>\<^verbatim>\<open>utt.get("text", "")\<close>\<close>
  u_start_timestamp :: "string option"

definition transcript_step ::
  "'dt library \<Rightarrow> string list \<times> string option \<Rightarrow> utterance \<Rightarrow> string list \<times> string option" where
  \<comment> \<open>one iteration of the loop of \<^verbatim>\<open>format_transcript\<close>, on the pair of \<^verbatim>\<open>lines\<close>
      and \<^verbatim>\<open>current_speaker\<close>\<close>
  "transcript_step lib st utt =
     (let lines = fst st; current_speaker = snd st;
          speaker = (if u_source utt = Some ''microphone'' then ''You'' else ''Other'');
          txt = strip (u_text utt)
      in if txt = '''' then (lines, current_speaker)
         else
           (let time_str =
                  (case parse_datetime lib (u_start_timestamp utt) of
                     None \<Rightarrow> ''''
                   | Some dt \<Rightarrow> ''['' @ strftime lib dt ''%H:%M:%S'' @ ''] '')
            in if Some speaker \<noteq> current_speaker
               then (lines @ [nl @ ''**'' @ speaker @ '':** '' @ time_str @ txt], Some speaker)
               else (lines @ [time_str @ txt], current_speaker)))"

definition format_transcript :: "'dt library \<Rightarrow> utterance list \<Rightarrow> string" where
  "format_transcript lib utterances =
     strip (join nl (fst (foldl (transcript_step lib) ([], None) utterances)))"

section \<open>Sync logic\<close>

text \<open>
  A Python \<^verbatim>\<open>dict\<close> keeps its keys in insertion order, and the loops of \<^verbatim>\<open>sync\<close>
  run in that order: a dictionary is a list of pairs with distinct keys, read with
  \<^const>\<open>map_of\<close>. Assigning to a key that is present keeps its place; a new key goes
  to the end.
\<close>

fun dict_set :: "'k \<Rightarrow> 'v \<Rightarrow> ('k \<times> 'v) list \<Rightarrow> ('k \<times> 'v) list" where
  "dict_set k v [] = [(k, v)]"
| "dict_set k v (p # ps) = (if fst p = k then (k, v) # ps else p # dict_set k v ps)"

text \<open>
  An entry of \<^verbatim>\<open>.sync-state.json\<close>. Each of its four keys may be absent; the empty
  JSON object is the entry with no key.
\<close>

record entry =
  e_updated_at :: "string option"
  e_filename :: "string option"
  e_transcript_saved :: "bool option"
  e_transcript_filename :: "string option"

type_synonym sync_state = "(string \<times> entry) list"

definition empty_entry :: entry where
  "empty_entry =
     \<lparr> e_updated_at = None, e_filename = None, e_transcript_saved = None,
       e_transcript_filename = None \<rparr>"

definition state_get :: "sync_state \<Rightarrow> string \<Rightarrow> entry" where
  \<comment> \<open>\<^verbatim>\<open>sync_state.get(doc_id, {})\<close>\<close>
  "state_get st doc_id = (case map_of st doc_id of None \<Rightarrow> empty_entry | Some e \<Rightarrow> e)"

definition is_deleted :: "document \<Rightarrow> bool" where
  "is_deleted doc = (truthy (d_deleted_at doc) \<or> d_was_trashed doc)"

definition collect ::
  "'dt library \<Rightarrow> (string \<times> document) list \<Rightarrow> (string \<times> (string \<times> panel) list) list
     \<Rightarrow> (string \<times> string list) list \<Rightarrow> (string \<times> meeting) list" where
  \<comment> \<open>the first pass, which fills \<^verbatim>\<open>all_data\<close>\<close>
  "collect lib documents panels doc_folders =
     foldl (\<lambda>all_data (doc_id, doc).
              if is_deleted doc then all_data
              else dict_set doc_id
                     (extract_meeting_data lib doc panels (map_of doc_folders doc_id)) all_data)
           [] documents"

definition slug_of :: "meeting \<Rightarrow> string" where
  \<comment> \<open>\<^verbatim>\<open>slugify(data["title"]) or "untitled"\<close>\<close>
  "slug_of data = (let slug = slugify (m_title data) in if slug = '''' then ''untitled'' else slug)"

definition base_name :: "meeting \<Rightarrow> string" where
  "base_name data = m_date data @ ''_'' @ slug_of data"

definition plain_filename :: "meeting \<Rightarrow> string" where
  "plain_filename data = base_name data @ ''.md''"

definition suffixed_filename :: "string \<Rightarrow> meeting \<Rightarrow> string" where
  "suffixed_filename doc_id data = base_name data @ ''_'' @ take 8 doc_id @ ''.md''"

definition assign_first ::
  "(string \<times> string) list \<times> (string \<times> nat) list \<Rightarrow> string \<times> meeting
     \<Rightarrow> (string \<times> string) list \<times> (string \<times> nat) list" where
  \<comment> \<open>one iteration of the loop "Assign filenames", on \<^verbatim>\<open>filenames\<close> and
      \<^verbatim>\<open>filename_counts\<close>\<close>
  "assign_first acc item =
     (let filenames = fst acc; filename_counts = snd acc;
          doc_id = fst item; data = snd item;
          filename = plain_filename data
      in case map_of filename_counts filename of
           Some n \<Rightarrow> (dict_set doc_id (suffixed_filename doc_id data) filenames,
                      dict_set filename (n + 1) filename_counts)
         | None \<Rightarrow> (dict_set doc_id filename filenames, dict_set filename 1 filename_counts))"

definition assign_second ::
  "(string \<times> nat) list \<Rightarrow> (string \<times> string) list \<Rightarrow> string \<times> meeting
     \<Rightarrow> (string \<times> string) list" where
  \<comment> \<open>one iteration of the loop "Handle collisions for the first occurrence too"\<close>
  "assign_second filename_counts filenames item =
     (let doc_id = fst item; data = snd item;
          orig_filename = plain_filename data
      in if (case map_of filename_counts orig_filename of None \<Rightarrow> 0 | Some n \<Rightarrow> n) > 1
            \<and> map_of filenames doc_id = Some orig_filename
         then dict_set doc_id (suffixed_filename doc_id data) filenames
         else filenames)"

definition assign_filenames :: "(string \<times> meeting) list \<Rightarrow> (string \<times> string) list" where
  "assign_filenames all_data =
     (let acc = foldl assign_first ([], []) all_data
      in foldl (assign_second (snd acc)) (fst acc) all_data)"

definition name_count :: "(string \<times> meeting) list \<Rightarrow> string \<Rightarrow> nat" where
  \<comment> \<open>how many records have the plain file name \<open>f\<close>: what \<^verbatim>\<open>filename_counts\<close> holds
      for \<open>f\<close> after the first loop\<close>
  "name_count all_data f = length (filter (\<lambda>item. plain_filename (snd item) = f) all_data)"

text \<open>
  The output directory is a set of file names; file contents are not modelled.
  \<^verbatim>\<open>os.path.join(output_dir, "")\<close> is the directory itself, which exists once
  \<^verbatim>\<open>os.makedirs\<close> has run, and \<^verbatim>\<open>os.remove\<close> of a directory raises \<^verbatim>\<open>OSError\<close>.
  File names are taken to be plain names inside the directory.
\<close>

definition path_exists :: "string set \<Rightarrow> string \<Rightarrow> bool" where
  \<comment> \<open>\<^verbatim>\<open>os.path.exists(os.path.join(output_dir, name))\<close>\<close>
  "path_exists fs name = (name = '''' \<or> name \<in> fs)"

datatype error = KeyError | IsADirectoryError

text \<open>
  What a run does to the directory, in the order in which it does it. The four
  constructors are the four places where \<^verbatim>\<open>sync\<close> touches a file, in dry-run mode
  the four "Would ..." messages. A deletion carries the name of the file; a write
  carries the id of the document whose iteration writes, and the name of the file.
\<close>

datatype action =
  RemoveOld string | WriteNotes string string | WriteTranscript string string
  | RemoveOrphan string

record run =
  r_files :: "string set"
  r_state :: sync_state  \<comment> \<open>\<^verbatim>\<open>new_sync_state\<close>\<close>
  r_actions :: "action list"
  r_created :: nat
  r_updated :: nat
  r_skipped :: nat
  r_removed :: nat
  r_transcripts_saved :: nat

definition remove_file :: "bool \<Rightarrow> action \<Rightarrow> string \<Rightarrow> run \<Rightarrow> run" where
  \<comment> \<open>in dry-run mode the message only, else \<^verbatim>\<open>os.remove\<close> of a file\<close>
  "remove_file dry_run a name r =
     (if dry_run then r\<lparr> r_actions := r_actions r @ [a] \<rparr>
      else r\<lparr> r_files := r_files r - {name}, r_actions := r_actions r @ [a] \<rparr>)"

definition write_file :: "bool \<Rightarrow> action \<Rightarrow> string \<Rightarrow> run \<Rightarrow> run" where
  \<comment> \<open>in dry-run mode the message only, else \<^verbatim>\<open>open(path, "w")\<close> and the writes\<close>
  "write_file dry_run a name r =
     (if dry_run then r\<lparr> r_actions := r_actions r @ [a] \<rparr>
      else r\<lparr> r_files := insert name (r_files r), r_actions := r_actions r @ [a] \<rparr>)"

definition rename_cleanup :: "bool \<Rightarrow> entry \<Rightarrow> string \<Rightarrow> run \<Rightarrow> run" where
  \<comment> \<open>the block "Clean up old file if title/date changed (rename detection)"\<close>
  "rename_cleanup dry_run prev filename r =
     (case e_filename prev of
        None \<Rightarrow> r
      | Some old_filename \<Rightarrow>
          if old_filename \<noteq> '''' \<and> old_filename \<noteq> filename
             \<and> path_exists (r_files r) old_filename
          then remove_file dry_run (RemoveOld old_filename) old_filename r
          else r)"

definition write_notes :: "bool \<Rightarrow> entry \<Rightarrow> string \<Rightarrow> string \<Rightarrow> run \<Rightarrow> run" where
  \<comment> \<open>the block "Write the file", with its counters\<close>
  "write_notes dry_run prev doc_id filename r =
     (let r1 = write_file dry_run (WriteNotes doc_id filename) filename r
      in if dry_run then r1
         else if prev \<noteq> empty_entry then r1\<lparr> r_updated := r_updated r1 + 1 \<rparr>
         else r1\<lparr> r_created := r_created r1 + 1 \<rparr>)"

definition new_entry :: "meeting \<Rightarrow> string \<Rightarrow> entry" where
  \<comment> \<open>\<^verbatim>\<open>{"updated_at": data["updated_at"], "filename": filename}\<close>\<close>
  "new_entry data filename =
     \<lparr> e_updated_at = Some (m_updated_at data), e_filename = Some filename,
       e_transcript_saved = None, e_transcript_filename = None \<rparr>"

definition sync_document ::
  "bool \<Rightarrow> bool \<Rightarrow> sync_state \<Rightarrow> (string \<times> string) list \<Rightarrow> string \<times> meeting \<Rightarrow> run
     \<Rightarrow> error + run" where
  \<comment> \<open>one iteration of the loop "Sync each document"\<close>
  "sync_document force dry_run sync_state filenames item r =
     (let doc_id = fst item; data = snd item
      in case map_of filenames doc_id of
           None \<Rightarrow> Inl KeyError
         | Some filename \<Rightarrow>
             (let prev = state_get sync_state doc_id
              in if \<not> force \<and> e_updated_at prev = Some (m_updated_at data)
                 then Inr (r\<lparr> r_state := dict_set doc_id prev (r_state r),
                              r_skipped := r_skipped r + 1 \<rparr>)
                 else
                   (let r1 = rename_cleanup dry_run prev filename r;
                        r2 = write_notes dry_run prev doc_id filename r1
                    in Inr (r2\<lparr> r_state :=
                                   dict_set doc_id (new_entry data filename) (r_state r2) \<rparr>))))"

definition transcript_name :: "meeting \<Rightarrow> string" where
  \<comment> \<open>\<^verbatim>\<open>transcript_filename\<close>\<close>
  "transcript_name data = m_date data @ ''_'' @ slug_of data @ ''_transcript.md''"

definition transcript_prev :: "sync_state \<Rightarrow> run \<Rightarrow> string \<Rightarrow> entry" where
  \<comment> \<open>\<^verbatim>\<open>new_sync_state.get(doc_id, sync_state.get(doc_id, {}))\<close>\<close>
  "transcript_prev sync_state r doc_id =
     (case map_of (r_state r) doc_id of Some e \<Rightarrow> e | None \<Rightarrow> state_get sync_state doc_id)"

definition mark_transcript_saved ::
  "(string \<times> string) list \<Rightarrow> string \<Rightarrow> meeting \<Rightarrow> run \<Rightarrow> run" where
  \<comment> \<open>the last statement of the transcript loop: the entry of the id gets
      \<^verbatim>\<open>transcript_saved\<close> and \<^verbatim>\<open>transcript_filename\<close>, or is created with them\<close>
  "mark_transcript_saved filenames doc_id data r =
     (case map_of (r_state r) doc_id of
        Some e \<Rightarrow>
          r\<lparr> r_state :=
                dict_set doc_id
                  (e\<lparr> e_transcript_saved := Some True,
                      e_transcript_filename := Some (transcript_name data) \<rparr>)
                  (r_state r) \<rparr>
      | None \<Rightarrow>
          r\<lparr> r_state :=
                dict_set doc_id
                  \<lparr> e_updated_at = Some (m_updated_at data),
                    e_filename = Some (case map_of filenames doc_id of
                                         None \<Rightarrow> '''' | Some f \<Rightarrow> f),
                    e_transcript_saved = Some True,
                    e_transcript_filename = Some (transcript_name data) \<rparr>
                  (r_state r) \<rparr>)"

definition export_transcript ::
  "bool \<Rightarrow> sync_state \<Rightarrow> (string \<times> meeting) list \<Rightarrow> (string \<times> string) list
     \<Rightarrow> string \<times> utterance list \<Rightarrow> run \<Rightarrow> error + run" where
  \<comment> \<open>one iteration of the loop "Export transcripts"\<close>
  "export_transcript dry_run sync_state all_data filenames item r =
     (let doc_id = fst item; utterances = snd item
      in case map_of all_data doc_id of
           None \<Rightarrow> Inr r
         | Some data \<Rightarrow>
             if utterances = [] then Inr r
             else if e_transcript_saved (transcript_prev sync_state r doc_id) = Some True
             then Inr r
             else
               (let r1 = write_file dry_run (WriteTranscript doc_id (transcript_name data))
                           (transcript_name data) r;
                    r2 = r1\<lparr> r_transcripts_saved := r_transcripts_saved r1 + 1 \<rparr>
                in Inr (mark_transcript_saved filenames doc_id data r2)))"

definition remove_orphan :: "bool \<Rightarrow> entry \<Rightarrow> run \<Rightarrow> error + run" where
  \<comment> \<open>the removal of the notes file of an id that left the cache. The path is built
      from \<^verbatim>\<open>prev.get("filename", "")\<close> and the messages read \<^verbatim>\<open>prev["filename"]\<close>\<close>
  "remove_orphan dry_run prev r =
     (let name = (case e_filename prev of None \<Rightarrow> '''' | Some f \<Rightarrow> f)
      in if path_exists (r_files r) name then
           (if dry_run then
              (case e_filename prev of
                 None \<Rightarrow> Inl KeyError
               | Some f \<Rightarrow>
                   Inr ((remove_file dry_run (RemoveOrphan f) f r)
                          \<lparr> r_removed := r_removed r + 1 \<rparr>))
            else if name = '''' then Inl IsADirectoryError
            else Inr ((remove_file dry_run (RemoveOrphan name) name r)
                        \<lparr> r_removed := r_removed r + 1 \<rparr>))
         else Inr r)"

definition preserve_transcript_state :: "string \<Rightarrow> entry \<Rightarrow> run \<Rightarrow> error + run" where
  \<comment> \<open>the block "Preserve transcript state so the file isn't orphaned"\<close>
  "preserve_transcript_state doc_id prev r =
     (if e_transcript_saved prev = Some True then
        (case e_transcript_filename prev of
           None \<Rightarrow> Inl KeyError
         | Some tf \<Rightarrow>
             Inr (r\<lparr> r_state :=
                        dict_set doc_id
                          \<lparr> e_updated_at = None, e_filename = None,
                            e_transcript_saved = Some True,
                            e_transcript_filename = Some tf \<rparr>
                          (r_state r) \<rparr>))
      else Inr r)"

definition cleanup_orphan ::
  "bool \<Rightarrow> (string \<times> meeting) list \<Rightarrow> string \<times> entry \<Rightarrow> run \<Rightarrow> error + run" where
  \<comment> \<open>one iteration of the loop "Clean up files for documents no longer in cache"\<close>
  "cleanup_orphan dry_run all_data item r =
     (let doc_id = fst item; prev = snd item
      in case map_of all_data doc_id of
           Some data \<Rightarrow> Inr r
         | None \<Rightarrow>
             (case remove_orphan dry_run prev r of
                Inl e \<Rightarrow> Inl e
              | Inr r1 \<Rightarrow> preserve_transcript_state doc_id prev r1))"

fun for_each :: "('a \<Rightarrow> 's \<Rightarrow> error + 's) \<Rightarrow> 'a list \<Rightarrow> 's \<Rightarrow> error + 's" where
  \<comment> \<open>a \<^verbatim>\<open>for\<close> loop whose body may raise: the first exception ends the run\<close>
  "for_each body [] s = Inr s"
| "for_each body (x # xs) s =
     (case body x s of Inl e \<Rightarrow> Inl e | Inr s' \<Rightarrow> for_each body xs s')"

definition removal_logged :: "string \<Rightarrow> run \<Rightarrow> bool" where
  \<comment> \<open>the run has deleted, or in dry-run mode announced the deletion of, the file\<close>
  "removal_logged f r =
     (RemoveOld f \<in> set (r_actions r) \<or> RemoveOrphan f \<in> set (r_actions r))"

definition recorded :: "sync_state \<Rightarrow> string \<Rightarrow> bool" where
  \<comment> \<open>some entry of the state has the name as its notes file name\<close>
  "recorded st f = (\<exists>item \<in> set st. e_filename (snd item) = Some f)"

record outcome =
  files :: "string set"  \<comment> \<open>the output directory after the run\<close>
  persisted :: sync_state  \<comment> \<open>\<^verbatim>\<open>.sync-state.json\<close> after the run\<close>
  new_sync_state :: sync_state
  actions :: "action list"
  created :: nat
  updated :: nat
  skipped :: nat
  removed :: nat
  transcripts_saved :: nat

definition sync_records ::
  "bool \<Rightarrow> bool \<Rightarrow> (string \<times> meeting) list \<Rightarrow> (string \<times> utterance list) list
     \<Rightarrow> string set \<Rightarrow> sync_state \<Rightarrow> error + outcome" where
  \<comment> \<open>\<^verbatim>\<open>sync\<close> from the point where \<^verbatim>\<open>all_data\<close> is filled; \<open>fs\<close> and
      \<open>stored\<close> are the output directory and the state file before the run\<close>
  "sync_records force dry_run all_data transcripts fs stored =
     (let sync_state = (if \<not> force then stored else []);
          filenames = assign_filenames all_data;
          r0 = \<lparr> r_files = fs, r_state = [], r_actions = [], r_created = 0, r_updated = 0,
                 r_skipped = 0, r_removed = 0, r_transcripts_saved = 0 \<rparr>
      in case for_each (sync_document force dry_run sync_state filenames) all_data r0 of
           Inl e \<Rightarrow> Inl e
         | Inr r1 \<Rightarrow>
            (case for_each (export_transcript dry_run sync_state all_data filenames)
                    transcripts r1 of
               Inl e \<Rightarrow> Inl e
             | Inr r2 \<Rightarrow>
                (case for_each (cleanup_orphan dry_run all_data) sync_state r2 of
                   Inl e \<Rightarrow> Inl e
                 | Inr r3 \<Rightarrow>
                     Inr \<lparr> files = r_files r3,
                           persisted = (if \<not> dry_run then r_state r3 else stored),
                           new_sync_state = r_state r3,
                           actions = r_actions r3,
                           created = r_created r3,
                           updated = r_updated r3,
                           skipped = r_skipped r3,
                           removed = r_removed r3,
                           transcripts_saved = r_transcripts_saved r3 \<rparr>)))"

definition sync ::
  "'dt library \<Rightarrow> bool \<Rightarrow> bool \<Rightarrow> (string \<times> document) list
     \<Rightarrow> (string \<times> (string \<times> panel) list) list \<Rightarrow> (string \<times> string list) list
     \<Rightarrow> (string \<times> utterance list) list \<Rightarrow> string set \<Rightarrow> sync_state \<Rightarrow> error + outcome" where
  "sync lib force dry_run documents panels doc_folders transcripts fs stored =
     sync_records force dry_run (collect lib documents panels doc_folders) transcripts fs stored"

definition summary_line :: "bool \<Rightarrow> outcome \<Rightarrow> string" where
  \<comment> \<open>the line that \<^verbatim>\<open>sync\<close> prints last\<close>
  "summary_line dry_run out =
     (if dry_run then ''[DRY RUN] '' else '''') @ ''Sync complete: ''
       @ join '', ''
           ([str_nat (created out) @ '' created, '' @ str_nat (updated out) @ '' updated'',
             str_nat (skipped out) @ '' unchanged, '' @ str_nat (removed out) @ '' removed'']
            @ (if transcripts_saved out \<noteq> 0
               then [str_nat (transcripts_saved out) @ '' transcripts saved''] else []))"

section \<open>Example inputs\<close>

text \<open>
  Concrete inputs on which the properties below are evaluated. The example library
  parses nothing and formats every date as 2026-01-05, 09:30.
\<close>

definition example_library :: "unit library" where
  "example_library =
     \<lparr> fromisoformat = (\<lambda>s. None),
       now = (),
       strftime = (\<lambda>dt fmt. if fmt = ''%Y-%m-%d'' then ''2026-01-05''
                             else if fmt = ''%H:%M'' then ''09:30'' else ''09:30:00''),
       minutes_between = (\<lambda>a b. 0),
       html_to_basic_markdown = (\<lambda>s. s) \<rparr>"

definition example_document :: "string option \<Rightarrow> document" where
  \<comment> \<open>a document with the given \<^verbatim>\<open>title\<close> field and nothing else but its id and
      version token\<close>
  "example_document title =
     \<lparr> d_id = ''a1'', d_title = title, d_updated_at = Some ''v1'', d_created_at = None,
       d_deleted_at = None, d_was_trashed = False, d_cal_start = None, d_cal_end = None,
       d_creator = None, d_attendees = [], d_notes_markdown = None, d_notes = None \<rparr>"

definition example_meeting :: "string \<Rightarrow> string \<Rightarrow> string \<Rightarrow> meeting" where
  "example_meeting doc_id title version =
     \<lparr> m_id = doc_id, m_title = title, m_date = ''2026-01-05'', m_time = ''09:30'',
       m_duration_minutes = None, m_attendees = [], m_folders = [], m_notes = '''',
       m_summary = '''', m_updated_at = version \<rparr>"

definition example_utterance :: "string \<Rightarrow> string \<Rightarrow> utterance" where
  "example_utterance source txt =
     \<lparr> u_source = Some source, u_text = txt, u_start_timestamp = None \<rparr>"

definition example_entry :: "string \<Rightarrow> string \<Rightarrow> entry" where
  \<comment> \<open>the entry that a run stores for a document without transcript\<close>
  "example_entry version filename =
     \<lparr> e_updated_at = Some version, e_filename = Some filename, e_transcript_saved = None,
       e_transcript_filename = None \<rparr>"

definition example_entry_with_transcript :: "string \<Rightarrow> string \<Rightarrow> string \<Rightarrow> entry" where
  \<comment> \<open>the entry that a run stores for a document whose transcript it saved\<close>
  "example_entry_with_transcript version filename transcript_filename =
     \<lparr> e_updated_at = Some version, e_filename = Some filename, e_transcript_saved = Some True,
       e_transcript_filename = Some transcript_filename \<rparr>"

definition example_collision :: "(string \<times> meeting) list" where
  \<comment> \<open>two records with the same base name and a third with a base name of its own\<close>
  "example_collision =
     [(''11111111-aaaa'', example_meeting ''11111111-aaaa'' ''Weekly Sync'' ''v1''),
      (''22222222-bbbb'', example_meeting ''22222222-bbbb'' ''Weekly  sync!'' ''v1''),
      (''33333333-cccc'', example_meeting ''33333333-cccc'' ''Planning'' ''v1'')]"

definition example_same_prefix :: "(string \<times> meeting) list" where
  \<comment> \<open>two records with the same base name whose ids agree on their first eight
      characters\<close>
  "example_same_prefix =
     [(''abcdefgh-1'', example_meeting ''abcdefgh-1'' ''Weekly Sync'' ''v1''),
      (''abcdefgh-2'', example_meeting ''abcdefgh-2'' ''Weekly Sync'' ''v1'')]"

definition example_transcripts :: "(string \<times> utterance list) list" where
  \<comment> \<open>one utterance for the document \<open>a1\<close>\<close>
  "example_transcripts = [(''a1'', [example_utterance ''microphone'' ''hello''])]"

definition example_outcome ::
  "string set \<Rightarrow> sync_state \<Rightarrow> action list \<Rightarrow> nat \<times> nat \<times> nat \<times> nat \<times> nat \<Rightarrow> outcome" where
  \<comment> \<open>the outcome of a run that is not a dry run: the directory, the state, the actions,
      and the counters created, updated, unchanged, removed, transcripts saved\<close>
  "example_outcome fs st acts counters =
     (case counters of (c, u, s, r, t) \<Rightarrow>
        \<lparr> files = fs, persisted = st, new_sync_state = st, actions = acts,
          created = c, updated = u, skipped = s, removed = r, transcripts_saved = t \<rparr>)"

section \<open>Properties of the renderer\<close>

text \<open>
  C9. The marks of a text run are applied in the order of the source list, each mark
  wrapping the text accumulated so far: a run with no mark renders as its text, and a
  run with one more mark renders as that mark applied to the rendering without it. In
  particular, the marks bold then link render as a link around bold text, and link then
  bold as a bold link, for every text and every link target.
\<close>

theorem text_run_marks_in_source_order:
  "tiptap_to_markdown (text_run t []) indent ordered_num = t
   \<and> tiptap_to_markdown (text_run t (ms @ [m])) indent ordered_num
       = apply_mark (tiptap_to_markdown (text_run t ms) indent ordered_num) m
   \<and> tiptap_to_markdown (text_run t [Mark ''bold'' None, Mark ''link'' (Some x)]) indent ordered_num
       = ''[**'' @ t @ ''**]('' @ x @ '')''
   \<and> tiptap_to_markdown (text_run t [Mark ''link'' (Some x), Mark ''bold'' None]) indent ordered_num
       = ''**['' @ t @ ''](''  @ x @ '')**''"
  by (simp add: text_run_def apply_mark_def)

theorem text_run_marks_witness:
  "tiptap_to_markdown (text_run ''hi'' [Mark ''bold'' None, Mark ''link'' (Some ''x'')]) 0 None
       = ''[**hi**](x)''
   \<and> tiptap_to_markdown (text_run ''hi'' [Mark ''link'' (Some ''x''), Mark ''bold'' None]) 0 None
       = ''**[hi](x)**''"
  using text_run_marks_in_source_order [of "''hi''" 0 None "[]" "Mark ''bold'' None" "''x''"]
  by simp

section \<open>Properties of the extraction\<close>

text \<open>
  C8, as the claim states it, fails: a document whose title field is the empty string
  keeps the empty title, since the default of \<^verbatim>\<open>doc.get("title", ...)\<close> is used
  only when the key is absent.
\<close>

theorem empty_title_counterexample:
  "m_title (extract_meeting_data example_library (example_document (Some '''')) [] None)
     \<noteq> ''Untitled Meeting''"
  by (simp add: extract_meeting_data_def example_document_def Let_def)

text \<open>
  C8, amended. A document whose title field is absent is extracted with the title
  "Untitled Meeting"; a document whose title field is present is extracted with that
  title unchanged, the empty string included.
\<close>

theorem extracted_title:
  "m_title (extract_meeting_data lib doc panels folders)
     = (case d_title doc of None \<Rightarrow> ''Untitled Meeting'' | Some t \<Rightarrow> t)"
  by (simp add: extract_meeting_data_def Let_def)

theorem extracted_title_witness:
  "m_title (extract_meeting_data example_library (example_document None) [] None)
     = ''Untitled Meeting''
   \<and> m_title (extract_meeting_data example_library (example_document (Some ''Weekly Sync'')) [] None)
     = ''Weekly Sync''
   \<and> m_title (extract_meeting_data example_library (example_document (Some '''')) [] None) = ''''"
  using extracted_title [of example_library "example_document None" "[]" None]
        extracted_title [of example_library "example_document (Some ''Weekly Sync'')" "[]" None]
        extracted_title [of example_library "example_document (Some '''')" "[]" None]
  by (simp add: example_document_def)

section \<open>Properties of the transcript formatting\<close>

text \<open>
  C10. An utterance whose text is empty after trimming is skipped by
  \<^verbatim>\<open>format_transcript\<close>: the iteration leaves both the lines and the current speaker
  as they were, and the formatted transcript is the one of the sequence without that
  utterance, wherever the utterance stands.
\<close>

theorem blank_utterance_is_skipped:
  assumes "strip (u_text u) = ''''"
  shows "transcript_step lib st u = st
         \<and> format_transcript lib (xs @ u # ys) = format_transcript lib (xs @ ys)"
  using assms by (simp add: format_transcript_def transcript_step_def Let_def)

theorem blank_utterance_witness:
  "strip (u_text (example_utterance ''system'' ''   '')) = ''''
   \<and> transcript_step example_library ([], Some ''You'') (example_utterance ''system'' ''   '')
        = ([], Some ''You'')
   \<and> format_transcript example_library
        [example_utterance ''microphone'' ''hello'', example_utterance ''system'' ''   '',
         example_utterance ''microphone'' ''again'']
      = format_transcript example_library
        [example_utterance ''microphone'' ''hello'', example_utterance ''microphone'' ''again'']"
proof -
  have blank: "strip (u_text (example_utterance ''system'' ''   '')) = ''''"
    by (simp add: example_utterance_def strip_def strip_by_def is_space_def)
  show ?thesis
    using blank
      blank_utterance_is_skipped [OF blank, of example_library "([], Some ''You'')"
        "[example_utterance ''microphone'' ''hello'']"
        "[example_utterance ''microphone'' ''again'']"]
    by simp
qed

section \<open>Properties of the filename assignment\<close>

subsection \<open>Dictionaries and the two assignment loops\<close>

lemma map_of_dict_set: "map_of (dict_set k v ps) = (map_of ps)(k \<mapsto> v)"
  by (induction ps) (auto simp: fun_eq_iff)

lemma keys_dict_set: "fst ` set (dict_set k v ps) = insert k (fst ` set ps)"
  by (induction ps) auto

lemma name_count_snoc:
  "name_count (xs @ [x]) f = name_count xs f + (if plain_filename (snd x) = f then 1 else 0)"
  by (simp add: name_count_def)

lemma name_count_pos: "(i, d) \<in> set xs \<Longrightarrow> 0 < name_count xs (plain_filename d)"
  unfolding name_count_def length_greater_0_conv filter_empty_conv by force

lemma suffixed_neq_plain: "suffixed_filename i d \<noteq> plain_filename d"
  by (simp add: suffixed_filename_def plain_filename_def)

lemma first_pass:
  assumes "distinct (map fst xs)"
  shows "(\<forall>f. map_of (snd (foldl assign_first ([], []) xs)) f
               = (if name_count xs f = 0 then None else Some (name_count xs f)))
       \<and> (\<forall>i d. (i, d) \<in> set xs \<longrightarrow>
             (map_of (fst (foldl assign_first ([], []) xs)) i = Some (plain_filename d)
              \<or> map_of (fst (foldl assign_first ([], []) xs)) i = Some (suffixed_filename i d))
             \<and> (name_count xs (plain_filename d) = 1 \<longrightarrow>
                  map_of (fst (foldl assign_first ([], []) xs)) i = Some (plain_filename d)))"
  using assms
proof (induction xs rule: rev_induct)
  case Nil
  show ?case by (simp add: name_count_def)
next
  case (snoc x xs)
  obtain j e where x: "x = (j, e)" by (cases x)
  let ?acc = "foldl assign_first ([], []) xs"
  from snoc.prems have dist: "distinct (map fst xs)" and fresh: "j \<notin> fst ` set xs"
    by (auto simp: x)
  note IH = snoc.IH [OF dist]
  from IH have counts: "\<And>f. map_of (snd ?acc) f
      = (if name_count xs f = 0 then None else Some (name_count xs f))"
    by blast
  have step: "foldl assign_first ([], []) (xs @ [x]) = assign_first ?acc (j, e)"
    by (simp add: x)
  have c: "\<And>f. map_of (snd (assign_first ?acc (j, e))) f
      = (if name_count (xs @ [x]) f = 0 then None else Some (name_count (xs @ [x]) f))"
    by (auto simp: assign_first_def Let_def map_of_dict_set counts name_count_snoc x
             split: option.splits)
  have old: "map_of (fst (assign_first ?acc (j, e))) i = map_of (fst ?acc) i"
    if "(i, d) \<in> set xs" for i d
  proof -
    from that fresh have "i \<noteq> j" by force
    then show ?thesis
      by (auto simp: assign_first_def Let_def map_of_dict_set split: option.splits)
  qed
  have new: "(map_of (fst (assign_first ?acc (j, e))) j = Some (plain_filename e)
              \<or> map_of (fst (assign_first ?acc (j, e))) j = Some (suffixed_filename j e))
             \<and> (name_count (xs @ [x]) (plain_filename e) = 1 \<longrightarrow>
                  map_of (fst (assign_first ?acc (j, e))) j = Some (plain_filename e))"
    by (auto simp: assign_first_def Let_def map_of_dict_set counts name_count_snoc x
             split: option.splits)
  have olds: "(map_of (fst (assign_first ?acc (j, e))) i = Some (plain_filename d)
              \<or> map_of (fst (assign_first ?acc (j, e))) i = Some (suffixed_filename i d))
             \<and> (name_count (xs @ [x]) (plain_filename d) = 1 \<longrightarrow>
                  map_of (fst (assign_first ?acc (j, e))) i = Some (plain_filename d))"
    if mem: "(i, d) \<in> set xs" for i d
  proof -
    from name_count_pos [OF mem] have "name_count (xs @ [x]) (plain_filename d) = 1
        \<Longrightarrow> name_count xs (plain_filename d) = 1"
      by (simp add: name_count_snoc split: if_splits)
    with IH mem show ?thesis unfolding old [OF mem] by blast
  qed
  show ?case unfolding step using c new olds by (auto simp: x)
qed

lemma second_pass:
  "distinct (map fst ys) \<Longrightarrow>
   map_of (foldl (assign_second cts) fn ys) j
     = (case map_of ys j of
          None \<Rightarrow> map_of fn j
        | Some d \<Rightarrow>
            if (case map_of cts (plain_filename d) of None \<Rightarrow> 0 | Some n \<Rightarrow> n) > 1
               \<and> map_of fn j = Some (plain_filename d)
            then Some (suffixed_filename j d) else map_of fn j)"
proof (induction ys arbitrary: fn)
  case Nil
  show ?case by simp
next
  case (Cons y ys)
  obtain i d where y: "y = (i, d)" by (cases y)
  from Cons.prems have dist: "distinct (map fst ys)" and fresh: "i \<notin> fst ` set ys"
    by (auto simp: y)
  from fresh have none: "map_of ys i = None"
    by (simp add: map_of_eq_None_iff)
  show ?case
    using Cons.IH [OF dist, of "assign_second cts fn (i, d)"] none
    by (auto simp: y assign_second_def Let_def map_of_dict_set split: option.splits)
qed

lemma assign_filenames_eq:
  assumes dist: "distinct (map fst all_data)" and mem: "(i, d) \<in> set all_data"
  shows "map_of (assign_filenames all_data) i
           = Some (if 2 \<le> name_count all_data (plain_filename d)
                   then suffixed_filename i d else plain_filename d)"
proof -
  let ?acc = "foldl assign_first ([], []) all_data"
  from dist mem have lookup: "map_of all_data i = Some d" by simp
  from first_pass [OF dist] mem
  have counts: "map_of (snd ?acc) (plain_filename d) = Some (name_count all_data (plain_filename d))"
    and either: "map_of (fst ?acc) i = Some (plain_filename d)
                 \<or> map_of (fst ?acc) i = Some (suffixed_filename i d)"
    and single: "name_count all_data (plain_filename d) = 1 \<Longrightarrow>
                 map_of (fst ?acc) i = Some (plain_filename d)"
    using name_count_pos [OF mem] by auto
  have "name_count all_data (plain_filename d) = 1 \<or> 2 \<le> name_count all_data (plain_filename d)"
    using name_count_pos [OF mem] by arith
  then show ?thesis
    using either single suffixed_neq_plain [of i d]
    by (auto simp: assign_filenames_def Let_def second_pass [OF dist] lookup counts)
qed

lemma name_count_base:
  "name_count xs (plain_filename d) = length (filter (\<lambda>item. base_name (snd item) = base_name d) xs)"
  by (simp add: name_count_def plain_filename_def)

subsection \<open>Evaluating the examples\<close>

lemma slugify_weekly_sync: "slugify ''Weekly Sync'' = ''weekly-sync''"
  by code_simp

lemma slugify_weekly_sync': "slugify ''Weekly  sync!'' = ''weekly-sync''"
  by code_simp

lemma slugify_planning: "slugify ''Planning'' = ''planning''"
  by code_simp

lemma example_base_names:
  "base_name (example_meeting a ''Weekly Sync'' v) = ''2026-01-05_weekly-sync''"
  "base_name (example_meeting a ''Weekly  sync!'' v) = ''2026-01-05_weekly-sync''"
  "base_name (example_meeting a ''Planning'' v) = ''2026-01-05_planning''"
  by (simp_all add: base_name_def slug_of_def example_meeting_def slugify_weekly_sync
        slugify_weekly_sync' slugify_planning)

subsection \<open>Slugs and file names\<close>

lemma sub_runs_subset: "set (sub_runs P s) \<subseteq> insert CHR ''-'' {c \<in> set s. \<not> P c}"
proof (induction P s rule: sub_runs.induct)
  case (1 P)
  show ?case by simp
next
  case (2 P c cs)
  show ?case
  proof (cases "P c")
    case True
    with 2 have "set (sub_runs P (dropWhile P cs)) \<subseteq> insert CHR ''-'' {c \<in> set (dropWhile P cs). \<not> P c}"
      by simp
    with True show ?thesis by (auto dest: set_dropWhileD)
  next
    case False
    with 2 show ?thesis by auto
  qed
qed

lemma strip_by_subset: "set (strip_by P s) \<subseteq> set s"
  by (auto simp: strip_by_def dest!: set_dropWhileD)

lemma slugify_no_underscore: "CHR ''_'' \<notin> set (slugify t)"
proof
  assume "CHR ''_'' \<in> set (slugify t)"
  then have "CHR ''_'' \<in> set (sub_runs (\<lambda>c. c = CHR ''-'')
      (sub_runs (\<lambda>c. is_space c \<or> c = CHR ''_'')
        (filter (\<lambda>c. is_word c \<or> is_space c \<or> c = CHR ''-'') (strip (lower t)))))"
    unfolding slugify_def Let_def using strip_by_subset by (fast dest: in_set_takeD)
  then have "CHR ''_'' \<in> set (sub_runs (\<lambda>c. is_space c \<or> c = CHR ''_'')
        (filter (\<lambda>c. is_word c \<or> is_space c \<or> c = CHR ''-'') (strip (lower t))))"
    using sub_runs_subset [of "\<lambda>c. c = CHR ''-''"] by auto
  then show False
    using sub_runs_subset [of "\<lambda>c. is_space c \<or> c = CHR ''_''"] by auto
qed

lemma slug_of_no_underscore: "CHR ''_'' \<notin> set (slug_of d)"
  using slugify_no_underscore [of "m_title d"] by (simp add: slug_of_def Let_def)

lemma split_at_first:
  "c \<notin> set a \<Longrightarrow> c \<notin> set b \<Longrightarrow> a @ c # r = b @ c # s \<Longrightarrow> a = b \<and> r = s"
proof (induction a arbitrary: b)
  case Nil
  then show ?case by (cases b) auto
next
  case (Cons x a)
  then show ?case by (cases b) auto
qed

lemma two_members_count:
  assumes "x \<in> set xs" "y \<in> set xs" "x \<noteq> y" "P x" "P y"
  shows "2 \<le> length (filter P xs)"
proof -
  have "{x, y} \<subseteq> set (filter P xs)" using assms by simp
  then have "card {x, y} \<le> card (set (filter P xs))"
    by (intro card_mono) simp_all
  also have "\<dots> \<le> length (filter P xs)" by (rule card_length)
  finally show ?thesis using assms(3) by simp
qed

lemma distinct_names:
  assumes dates: "CHR ''_'' \<notin> set (m_date d)" "CHR ''_'' \<notin> set (m_date e)"
    and prefixes: "take 8 i \<noteq> take 8 j"
  shows "suffixed_filename i d \<noteq> suffixed_filename j e"
    and "plain_filename d \<noteq> suffixed_filename j e"
proof -
  show "suffixed_filename i d \<noteq> suffixed_filename j e"
  proof
    assume "suffixed_filename i d = suffixed_filename j e"
    then have "m_date d @ CHR ''_'' # (slug_of d @ CHR ''_'' # take 8 i)
               = m_date e @ CHR ''_'' # (slug_of e @ CHR ''_'' # take 8 j)"
      by (simp add: suffixed_filename_def base_name_def)
    from split_at_first [OF dates this]
    have "slug_of d @ CHR ''_'' # take 8 i = slug_of e @ CHR ''_'' # take 8 j" by simp
    from split_at_first [OF slug_of_no_underscore slug_of_no_underscore this] prefixes
    show False by simp
  qed
  show "plain_filename d \<noteq> suffixed_filename j e"
  proof
    assume "plain_filename d = suffixed_filename j e"
    then have "m_date d @ CHR ''_'' # slug_of d
               = m_date e @ CHR ''_'' # (slug_of e @ CHR ''_'' # take 8 j)"
      by (simp add: suffixed_filename_def plain_filename_def base_name_def)
    from split_at_first [OF dates this]
    have "slug_of d = slug_of e @ CHR ''_'' # take 8 j" by simp
    then have "CHR ''_'' \<in> set (slug_of d)" by simp
    with slug_of_no_underscore show False by blast
  qed
qed

subsection \<open>Collision resolution\<close>

text \<open>
  C3. Let \<^verbatim>\<open>all_data\<close> be the records of a run (a dictionary: its ids are distinct),
  and let the base name of a record be its date, an underscore and the slug of its title
  (\<open>untitled\<close> when the slug is empty). A record whose base name is the base name
  of two or more records of the run, itself included and whatever its position, is
  assigned the base name followed by an underscore, the first eight characters of its id
  and \<open>.md\<close>; a record whose base name no other record has is assigned the base name
  followed by \<open>.md\<close>.
\<close>

theorem collision_resolution_symmetric:
  assumes "distinct (map fst all_data)" and "(doc_id, data) \<in> set all_data"
  shows "map_of (assign_filenames all_data) doc_id =
           Some (if 2 \<le> length (filter (\<lambda>item. base_name (snd item) = base_name data) all_data)
                 then base_name data @ ''_'' @ take 8 doc_id @ ''.md''
                 else base_name data @ ''.md'')"
  using assign_filenames_eq [OF assms] unfolding name_count_base
  by (simp add: suffixed_filename_def plain_filename_def)

theorem collision_resolution_witness:
  "distinct (map fst example_collision)
   \<and> map_of (assign_filenames example_collision) ''11111111-aaaa''
     = Some ''2026-01-05_weekly-sync_11111111.md''
   \<and> map_of (assign_filenames example_collision) ''22222222-bbbb''
     = Some ''2026-01-05_weekly-sync_22222222.md''
   \<and> map_of (assign_filenames example_collision) ''33333333-cccc''
     = Some ''2026-01-05_planning.md''"
proof -
  have dist: "distinct (map fst example_collision)"
    by (simp add: example_collision_def)
  have m1: "(''11111111-aaaa'', example_meeting ''11111111-aaaa'' ''Weekly Sync'' ''v1'')
              \<in> set example_collision"
    and m2: "(''22222222-bbbb'', example_meeting ''22222222-bbbb'' ''Weekly  sync!'' ''v1'')
              \<in> set example_collision"
    and m3: "(''33333333-cccc'', example_meeting ''33333333-cccc'' ''Planning'' ''v1'')
              \<in> set example_collision"
    by (simp_all add: example_collision_def)
  show ?thesis
    using dist
          collision_resolution_symmetric [OF dist m1]
          collision_resolution_symmetric [OF dist m2]
          collision_resolution_symmetric [OF dist m3]
    by (simp add: example_base_names example_collision_def)
qed

text \<open>
  C4, as the claim states it, fails: two records with distinct ids that agree on their
  first eight characters, and with the same base name, are assigned the same file name.
\<close>

theorem same_prefix_counterexample:
  "''abcdefgh-1'' \<noteq> ''abcdefgh-2''
   \<and> distinct (map fst example_same_prefix)
   \<and> map_of (assign_filenames example_same_prefix) ''abcdefgh-1''
       = Some ''2026-01-05_weekly-sync_abcdefgh.md''
   \<and> map_of (assign_filenames example_same_prefix) ''abcdefgh-2''
       = Some ''2026-01-05_weekly-sync_abcdefgh.md''"
  by (simp add: example_same_prefix_def assign_filenames_def assign_first_def assign_second_def
        plain_filename_def suffixed_filename_def example_base_names Let_def)

text \<open>
  C4, amended. Let the records of a run have ids whose first eight characters are
  pairwise distinct, and dates without underscore (the dates that
  \<^verbatim>\<open>strftime("%Y-%m-%d")\<close> produces are digits and hyphens). Then every record is
  assigned a file name, and two distinct records are assigned distinct file names.
\<close>

theorem assigned_filenames_injective:
  assumes prefixes: "distinct (map (\<lambda>item. take 8 (fst item)) all_data)"
    and dates: "\<forall>item \<in> set all_data. CHR ''_'' \<notin> set (m_date (snd item))"
    and mem: "(i, d) \<in> set all_data" "(j, e) \<in> set all_data"
    and neq: "i \<noteq> j"
  shows "\<exists>f g. map_of (assign_filenames all_data) i = Some f
               \<and> map_of (assign_filenames all_data) j = Some g \<and> f \<noteq> g"
proof -
  have "distinct (map (take 8) (map fst all_data))"
    using prefixes by (simp add: comp_def)
  then have dist: "distinct (map fst all_data)"
    unfolding distinct_map [of "take 8" "map fst all_data"] by (rule conjunct1)
  from prefixes have "inj_on (\<lambda>item. take 8 (fst item)) (set all_data)"
    by (simp add: distinct_map)
  from inj_onD [OF this _ mem] neq have pre: "take 8 i \<noteq> take 8 j"
    by auto
  from dates mem have di: "CHR ''_'' \<notin> set (m_date d)" and dj: "CHR ''_'' \<notin> set (m_date e)"
    by auto
  let ?F = "\<lambda>i d. if 2 \<le> name_count all_data (plain_filename d)
                   then suffixed_filename i d else plain_filename d"
  have "?F i d \<noteq> ?F j e"
  proof (cases "2 \<le> name_count all_data (plain_filename d)")
    case True
    show ?thesis
    proof (cases "2 \<le> name_count all_data (plain_filename e)")
      case True
      with \<open>2 \<le> name_count all_data (plain_filename d)\<close> distinct_names(1) [OF di dj pre]
      show ?thesis by simp
    next
      case False
      with True distinct_names(2) [OF dj di pre [symmetric]] show ?thesis by auto
    qed
  next
    case False
    show ?thesis
    proof (cases "2 \<le> name_count all_data (plain_filename e)")
      case True
      with False distinct_names(2) [OF di dj pre] show ?thesis by auto
    next
      case single: False
      have "plain_filename d \<noteq> plain_filename e"
      proof
        assume same: "plain_filename d = plain_filename e"
        from neq have "(i, d) \<noteq> (j, e)" by simp
        from two_members_count [OF mem this, of "\<lambda>item. plain_filename (snd item) = plain_filename d"]
          same
        have "2 \<le> name_count all_data (plain_filename d)" by (simp add: name_count_def)
        with False show False by simp
      qed
      with False single show ?thesis by simp
    qed
  qed
  then show ?thesis
    by (simp add: assign_filenames_eq [OF dist mem(1)] assign_filenames_eq [OF dist mem(2)])
qed


theorem assigned_filenames_injective_witness:
  "distinct (map (\<lambda>item. take 8 (fst item)) example_collision)
   \<and> list_all (\<lambda>item. CHR ''_'' \<notin> set (m_date (snd item))) example_collision
   \<and> map_of (assign_filenames example_collision) ''11111111-aaaa''
       \<noteq> map_of (assign_filenames example_collision) ''22222222-bbbb''"
proof -
  have prefixes: "distinct (map (\<lambda>item. take 8 (fst item)) example_collision)"
    by (simp add: example_collision_def)
  have dates: "\<forall>item \<in> set example_collision. CHR ''_'' \<notin> set (m_date (snd item))"
    by (simp add: example_collision_def example_meeting_def)
  have m1: "(''11111111-aaaa'', example_meeting ''11111111-aaaa'' ''Weekly Sync'' ''v1'')
              \<in> set example_collision"
    and m2: "(''22222222-bbbb'', example_meeting ''22222222-bbbb'' ''Weekly  sync!'' ''v1'')
              \<in> set example_collision"
    by (simp_all add: example_collision_def)
  have neq: "''11111111-aaaa'' \<noteq> ''22222222-bbbb''"
    by simp
  from assigned_filenames_injective [OF prefixes dates m1 m2 neq]
  have "map_of (assign_filenames example_collision) ''11111111-aaaa''
          \<noteq> map_of (assign_filenames example_collision) ''22222222-bbbb''"
    by auto
  with prefixes dates show ?thesis
    by (simp add: list_all_iff)
qed

section \<open>Properties of the synchronisation\<close>

subsection \<open>Loops\<close>

lemma for_each_append:
  "for_each body (xs @ ys) s
     = (case for_each body xs s of Inl e \<Rightarrow> Inl e | Inr s' \<Rightarrow> for_each body ys s')"
  by (induction xs arbitrary: s) (auto split: sum.splits)

lemma for_each_invariant:
  assumes "for_each body xs s = Inr s'" and "I s"
    and "\<And>x s s'. x \<in> set xs \<Longrightarrow> I s \<Longrightarrow> body x s = Inr s' \<Longrightarrow> I s'"
  shows "I s'"
  using assms
proof (induction xs arbitrary: s)
  case Nil
  then show ?case by simp
next
  case (Cons x xs)
  from Cons.prems(1) obtain s1 where s1: "body x s = Inr s1" "for_each body xs s1 = Inr s'"
    by (auto split: sum.splits)
  have "I s1" using Cons.prems(3) [OF _ Cons.prems(2) s1(1)] by simp
  show ?case
  proof (rule Cons.IH [OF s1(2) \<open>I s1\<close>])
    fix y t t'
    assume "y \<in> set xs" "I t" "body y t = Inr t'"
    then show "I t'" using Cons.prems(3) [of y t t'] by simp
  qed
qed

lemma for_each_split:
  assumes "for_each body xs s = Inr s'" and "x \<in> set xs"
  shows "\<exists>pre post s1 s2. xs = pre @ x # post \<and> for_each body pre s = Inr s1
           \<and> body x s1 = Inr s2 \<and> for_each body post s2 = Inr s'"
proof -
  from assms(2) obtain pre post where xs: "xs = pre @ x # post"
    by (auto dest: split_list)
  with assms(1) show ?thesis
    by (auto simp: for_each_append split: sum.splits)
qed

lemma sync_records_InrD:
  assumes "sync_records force dry all_data transcripts fs stored = Inr out"
  obtains r1 r2 r3 where
    "for_each (sync_document force dry (if \<not> force then stored else []) (assign_filenames all_data))
       all_data
       \<lparr> r_files = fs, r_state = [], r_actions = [], r_created = 0, r_updated = 0,
         r_skipped = 0, r_removed = 0, r_transcripts_saved = 0 \<rparr> = Inr r1"
    "for_each (export_transcript dry (if \<not> force then stored else []) all_data
                 (assign_filenames all_data)) transcripts r1 = Inr r2"
    "for_each (cleanup_orphan dry all_data) (if \<not> force then stored else []) r2 = Inr r3"
    "files out = r_files r3" "new_sync_state out = r_state r3" "actions out = r_actions r3"
    "persisted out = (if \<not> dry then r_state r3 else stored)"
    "created out = r_created r3" "updated out = r_updated r3" "skipped out = r_skipped r3"
    "removed out = r_removed r3" "transcripts_saved out = r_transcripts_saved r3"
  using assms
  by (auto simp: sync_records_def Let_def split: sum.splits)

subsection \<open>The steps of the loop bodies\<close>

lemma empty_entry_fields [simp]:
  "e_updated_at empty_entry = None" "e_filename empty_entry = None"
  "e_transcript_saved empty_entry = None" "e_transcript_filename empty_entry = None"
  by (simp_all add: empty_entry_def)

lemma rename_cleanup_state [simp]: "r_state (rename_cleanup dry prev f r) = r_state r"
  by (simp add: rename_cleanup_def remove_file_def split: option.splits)

lemma rename_cleanup_actions:
  "r_actions (rename_cleanup dry prev f r) = r_actions r
   \<or> (\<exists>old. e_filename prev = Some old \<and> old \<noteq> f \<and> old \<in> r_files r
        \<and> r_actions (rename_cleanup dry prev f r) = r_actions r @ [RemoveOld old]
        \<and> r_files (rename_cleanup dry prev f r) = (if dry then r_files r else r_files r - {old}))"
  by (auto simp: rename_cleanup_def remove_file_def path_exists_def split: option.splits)

lemma rename_cleanup_files:
  "r_actions (rename_cleanup dry prev f r) = r_actions r
     \<Longrightarrow> r_files (rename_cleanup dry prev f r) = r_files r"
  by (auto simp: rename_cleanup_def remove_file_def split: option.splits if_splits)

lemma write_notes_state [simp]: "r_state (write_notes dry prev i f r) = r_state r"
  by (simp add: write_notes_def write_file_def Let_def)

lemma write_notes_actions [simp]:
  "r_actions (write_notes dry prev i f r) = r_actions r @ [WriteNotes i f]"
  by (simp add: write_notes_def write_file_def Let_def)

lemma write_notes_files [simp]:
  "r_files (write_notes dry prev i f r) = (if dry then r_files r else insert f (r_files r))"
  by (simp add: write_notes_def write_file_def Let_def)

lemma sync_document_cases:
  assumes "sync_document force dry st fns x r = Inr r'"
  obtains
    (unchanged) "\<not> force" and "e_updated_at (state_get st (fst x)) = Some (m_updated_at (snd x))"
      and "r_files r' = r_files r" and "r_actions r' = r_actions r"
      and "r_state r' = dict_set (fst x) (state_get st (fst x)) (r_state r)"
  | (written) f where
      "force \<or> e_updated_at (state_get st (fst x)) \<noteq> Some (m_updated_at (snd x))"
      and "map_of fns (fst x) = Some f"
      and "r_files r' = (if dry then r_files r else insert f (r_files r))"
      and "r_actions r' = r_actions r @ [WriteNotes (fst x) f]"
      and "r_state r' = dict_set (fst x) (new_entry (snd x) f) (r_state r)"
  | (renamed) f old where
      "force \<or> e_updated_at (state_get st (fst x)) \<noteq> Some (m_updated_at (snd x))"
      and "map_of fns (fst x) = Some f"
      and "e_filename (state_get st (fst x)) = Some old" and "old \<noteq> f" and "old \<in> r_files r"
      and "r_files r' = (if dry then r_files r else insert f (r_files r - {old}))"
      and "r_actions r' = r_actions r @ [RemoveOld old, WriteNotes (fst x) f]"
      and "r_state r' = dict_set (fst x) (new_entry (snd x) f) (r_state r)"
proof -
  let ?prev = "state_get st (fst x)"
  from assms obtain f where f: "map_of fns (fst x) = Some f"
    by (auto simp: sync_document_def Let_def split: option.splits)
  show thesis
  proof (cases "\<not> force \<and> e_updated_at ?prev = Some (m_updated_at (snd x))")
    case True
    with assms f have "r' = r\<lparr> r_state := dict_set (fst x) ?prev (r_state r),
                                r_skipped := r_skipped r + 1 \<rparr>"
      by (simp add: sync_document_def Let_def)
    with True show thesis by (intro unchanged) simp_all
  next
    case False
    let ?r1 = "rename_cleanup dry ?prev f r"
    from False have changed:
      "force \<or> e_updated_at ?prev \<noteq> Some (m_updated_at (snd x))"
      by blast
    from assms f False have r': "r' = (write_notes dry ?prev (fst x) f ?r1)
        \<lparr> r_state := dict_set (fst x) (new_entry (snd x) f)
                        (r_state (write_notes dry ?prev (fst x) f ?r1)) \<rparr>"
      by (auto simp: sync_document_def Let_def)
    have state: "r_state r' = dict_set (fst x) (new_entry (snd x) f) (r_state r)"
      by (simp add: r')
    have acts: "r_actions r' = r_actions ?r1 @ [WriteNotes (fst x) f]"
      by (simp add: r')
    have fs: "r_files r' = (if dry then r_files ?r1 else insert f (r_files ?r1))"
      by (simp add: r')
    from rename_cleanup_actions [of dry ?prev f r] show thesis
    proof
      assume same: "r_actions ?r1 = r_actions r"
      have "r_files ?r1 = r_files r"
        by (rule rename_cleanup_files [OF same])
      then show thesis
        by (intro written [OF changed f _ _ state]) (simp_all only: fs acts same)
    next
      assume "\<exists>old. e_filename ?prev = Some old \<and> old \<noteq> f \<and> old \<in> r_files r
        \<and> r_actions ?r1 = r_actions r @ [RemoveOld old]
        \<and> r_files ?r1 = (if dry then r_files r else r_files r - {old})"
      then obtain old where old: "e_filename ?prev = Some old" "old \<noteq> f" "old \<in> r_files r"
        and r1: "r_actions ?r1 = r_actions r @ [RemoveOld old]"
          "r_files ?r1 = (if dry then r_files r else r_files r - {old})"
        by blast
      show thesis
        by (rule renamed [OF changed f old _ _ state]) (simp_all only: fs acts r1, simp_all)
    qed
  qed
qed

lemma mark_transcript_saved_fields [simp]:
  "r_files (mark_transcript_saved fns i d r) = r_files r"
  "r_actions (mark_transcript_saved fns i d r) = r_actions r"
  by (simp_all add: mark_transcript_saved_def split: option.splits)

lemma mark_transcript_saved_state:
  "\<exists>e. r_state (mark_transcript_saved fns i d r) = dict_set i e (r_state r)
       \<and> e_transcript_saved e = Some True \<and> e_transcript_filename e = Some (transcript_name d)
       \<and> e_updated_at e = (case map_of (r_state r) i of
                              Some e0 \<Rightarrow> e_updated_at e0 | None \<Rightarrow> Some (m_updated_at d))
       \<and> e_filename e = (case map_of (r_state r) i of
                              Some e0 \<Rightarrow> e_filename e0
                            | None \<Rightarrow> Some (case map_of fns i of None \<Rightarrow> '''' | Some f \<Rightarrow> f))"
proof (cases "map_of (r_state r) i")
  case None
  then show ?thesis
    unfolding mark_transcript_saved_def
    by (intro exI [of _ "\<lparr> e_updated_at = Some (m_updated_at d),
                            e_filename = Some (case map_of fns i of None \<Rightarrow> '''' | Some f \<Rightarrow> f),
                            e_transcript_saved = Some True,
                            e_transcript_filename = Some (transcript_name d) \<rparr>"]) simp
next
  case (Some e0)
  then show ?thesis
    unfolding mark_transcript_saved_def
    by (intro exI [of _ "e0\<lparr> e_transcript_saved := Some True,
                              e_transcript_filename := Some (transcript_name d) \<rparr>"]) simp
qed

lemma export_transcript_cases:
  assumes "export_transcript dry st all_data fns x r = Inr r'"
  obtains
    (skipped) "r' = r"
      and "map_of all_data (fst x) = None \<or> snd x = []
           \<or> e_transcript_saved (transcript_prev st r (fst x)) = Some True"
  | (saved) d e where "map_of all_data (fst x) = Some d" and "snd x \<noteq> []"
      and "e_transcript_saved (transcript_prev st r (fst x)) \<noteq> Some True"
      and "r_files r' = (if dry then r_files r else insert (transcript_name d) (r_files r))"
      and "r_actions r' = r_actions r @ [WriteTranscript (fst x) (transcript_name d)]"
      and "r_state r' = dict_set (fst x) e (r_state r)"
      and "e_transcript_saved e = Some True"
      and "e_transcript_filename e = Some (transcript_name d)"
      and "e_updated_at e = (case map_of (r_state r) (fst x) of
                               Some e0 \<Rightarrow> e_updated_at e0 | None \<Rightarrow> Some (m_updated_at d))"
      and "e_filename e = (case map_of (r_state r) (fst x) of
                               Some e0 \<Rightarrow> e_filename e0
                             | None \<Rightarrow> Some (case map_of fns (fst x) of None \<Rightarrow> '''' | Some f \<Rightarrow> f))"
proof (cases "map_of all_data (fst x) = None \<or> snd x = []
           \<or> e_transcript_saved (transcript_prev st r (fst x)) = Some True")
  case True
  with assms have "r' = r"
    by (auto simp: export_transcript_def Let_def split: option.splits if_splits)
  with True show thesis by (rule skipped [rotated])
next
  case False
  then obtain d where d: "map_of all_data (fst x) = Some d" by auto
  let ?r2 = "(write_file dry (WriteTranscript (fst x) (transcript_name d)) (transcript_name d) r)
               \<lparr> r_transcripts_saved :=
                   r_transcripts_saved
                     (write_file dry (WriteTranscript (fst x) (transcript_name d)) (transcript_name d) r) + 1 \<rparr>"
  from assms False d have r': "r' = mark_transcript_saved fns (fst x) d ?r2"
    by (simp add: export_transcript_def Let_def)
  from mark_transcript_saved_state [of fns "fst x" d ?r2] obtain e where
    e: "r_state r' = dict_set (fst x) e (r_state ?r2)"
      "e_transcript_saved e = Some True" "e_transcript_filename e = Some (transcript_name d)"
      "e_updated_at e = (case map_of (r_state ?r2) (fst x) of
                              Some e0 \<Rightarrow> e_updated_at e0 | None \<Rightarrow> Some (m_updated_at d))"
      "e_filename e = (case map_of (r_state ?r2) (fst x) of
                              Some e0 \<Rightarrow> e_filename e0
                            | None \<Rightarrow> Some (case map_of fns (fst x) of None \<Rightarrow> '''' | Some f \<Rightarrow> f))"
    unfolding r' by blast
  have r2: "r_state ?r2 = r_state r" "r_actions ?r2 = r_actions r @ [WriteTranscript (fst x) (transcript_name d)]"
    "r_files ?r2 = (if dry then r_files r else insert (transcript_name d) (r_files r))"
    by (simp_all add: write_file_def)
  show thesis
    using False d e r2 by (intro saved [of d e]) (simp_all add: r')
qed

lemma remove_orphan_cases:
  assumes "remove_orphan dry prev r = Inr r1"
  obtains
    (missing) "r1 = r"
      and "\<not> path_exists (r_files r) (case e_filename prev of None \<Rightarrow> '''' | Some f \<Rightarrow> f)"
  | (removed) f where "e_filename prev = Some f" and "path_exists (r_files r) f"
      and "dry \<or> f \<noteq> ''''"
      and "r_files r1 = (if dry then r_files r else r_files r - {f})"
      and "r_actions r1 = r_actions r @ [RemoveOrphan f]"
      and "r_state r1 = r_state r"
proof (cases "path_exists (r_files r) (case e_filename prev of None \<Rightarrow> '''' | Some f \<Rightarrow> f)")
  case False
  with assms have "r1 = r" by (simp add: remove_orphan_def)
  then show thesis using False by (rule missing)
next
  case True
  with assms obtain f where f: "e_filename prev = Some f"
    by (cases "e_filename prev") (auto simp: remove_orphan_def split: if_splits)
  with assms True have "dry \<or> f \<noteq> ''''"
    and "r1 = (remove_file dry (RemoveOrphan f) f r)\<lparr> r_removed := r_removed r + 1 \<rparr>"
    by (auto simp: remove_orphan_def split: if_splits)
  with f True show thesis
    by (intro removed [of f]) (simp_all add: remove_file_def)
qed

lemma preserve_transcript_state_cases:
  assumes "preserve_transcript_state i prev r1 = Inr r'"
  obtains
    (dropped) "e_transcript_saved prev \<noteq> Some True" and "r' = r1"
  | (tombstone) tf where "e_transcript_saved prev = Some True"
      and "e_transcript_filename prev = Some tf"
      and "r_files r' = r_files r1" and "r_actions r' = r_actions r1"
      and "r_state r' = dict_set i \<lparr> e_updated_at = None, e_filename = None,
                                      e_transcript_saved = Some True,
                                      e_transcript_filename = Some tf \<rparr> (r_state r1)"
  using assms
  by (auto simp: preserve_transcript_state_def split: if_splits option.splits)

lemma cleanup_orphan_cases:
  assumes "cleanup_orphan dry all_data x r = Inr r'"
  obtains
    (current) "map_of all_data (fst x) \<noteq> None" and "r' = r"
  | (orphan) r1 where "map_of all_data (fst x) = None"
      and "remove_orphan dry (snd x) r = Inr r1"
      and "preserve_transcript_state (fst x) (snd x) r1 = Inr r'"
  using assms
  by (auto simp: cleanup_orphan_def Let_def split: option.splits sum.splits)

subsection \<open>What the loop bodies preserve\<close>

lemma sync_document_actions_mono:
  assumes "sync_document force dry st fns x r = Inr r'"
  shows "set (r_actions r) \<subseteq> set (r_actions r')"
  using assms by (cases rule: sync_document_cases) auto

lemma export_transcript_actions_mono:
  assumes "export_transcript dry st all_data fns x r = Inr r'"
  shows "set (r_actions r) \<subseteq> set (r_actions r')"
  using assms by (cases rule: export_transcript_cases) auto

lemma remove_orphan_actions_mono:
  assumes "remove_orphan dry prev r = Inr r'"
  shows "set (r_actions r) \<subseteq> set (r_actions r')"
  using assms by (cases rule: remove_orphan_cases) auto

lemma preserve_transcript_state_actions [simp]:
  assumes "preserve_transcript_state i prev r = Inr r'"
  shows "r_actions r' = r_actions r" and "r_files r' = r_files r"
  using assms by (cases rule: preserve_transcript_state_cases; simp)+

lemma cleanup_orphan_actions_mono:
  assumes "cleanup_orphan dry all_data x r = Inr r'"
  shows "set (r_actions r) \<subseteq> set (r_actions r')"
  using assms
  by (cases rule: cleanup_orphan_cases)
     (auto dest!: remove_orphan_actions_mono preserve_transcript_state_actions(1))

lemma sync_document_keeps_or_logs:
  assumes "sync_document force dry st fns x r = Inr r'" and "f \<in> r_files r \<or> removal_logged f r"
  shows "f \<in> r_files r' \<or> removal_logged f r'"
  using assms by (cases rule: sync_document_cases) (auto simp: removal_logged_def)

lemma export_transcript_keeps_or_logs:
  assumes "export_transcript dry st all_data fns x r = Inr r'"
    and "f \<in> r_files r \<or> removal_logged f r"
  shows "f \<in> r_files r' \<or> removal_logged f r'"
  using assms by (cases rule: export_transcript_cases) (auto simp: removal_logged_def)

lemma remove_orphan_keeps_or_logs:
  assumes "remove_orphan dry prev r = Inr r'" and "f \<in> r_files r \<or> removal_logged f r"
  shows "f \<in> r_files r' \<or> removal_logged f r'"
  using assms by (cases rule: remove_orphan_cases) (auto simp: removal_logged_def)

lemma remove_orphan_logs:
  assumes "remove_orphan dry prev r = Inr r'" and "e_filename prev = Some f"
    and "f \<in> r_files r \<or> removal_logged f r"
  shows "removal_logged f r'"
  using assms
  by (cases rule: remove_orphan_cases) (auto simp: removal_logged_def path_exists_def)

lemma preserve_transcript_state_logged:
  assumes "preserve_transcript_state i prev r = Inr r'"
  shows "removal_logged f r' = removal_logged f r"
  using preserve_transcript_state_actions(1) [OF assms] by (simp add: removal_logged_def)

lemma cleanup_orphan_keeps_or_logs:
  assumes "cleanup_orphan dry all_data x r = Inr r'" and "f \<in> r_files r \<or> removal_logged f r"
  shows "f \<in> r_files r' \<or> removal_logged f r'"
  using assms(1)
proof (cases rule: cleanup_orphan_cases)
  case current
  with assms(2) show ?thesis by simp
next
  case (orphan r1)
  from remove_orphan_keeps_or_logs [OF orphan(2) assms(2)]
  show ?thesis
    using preserve_transcript_state_logged [OF orphan(3)]
      preserve_transcript_state_actions(2) [OF orphan(3)] by simp
qed

lemma cleanup_orphan_keeps_logged:
  assumes "cleanup_orphan dry all_data x r = Inr r'" and "removal_logged f r"
  shows "removal_logged f r'"
  using cleanup_orphan_actions_mono [OF assms(1)] assms(2) by (auto simp: removal_logged_def)

lemma cleanup_orphan_logs:
  assumes "cleanup_orphan dry all_data x r = Inr r'" and "map_of all_data (fst x) = None"
    and "e_filename (snd x) = Some f" and "f \<in> r_files r \<or> removal_logged f r"
  shows "removal_logged f r'"
  using assms(1)
proof (cases rule: cleanup_orphan_cases)
  case current
  with assms(2) show ?thesis by simp
next
  case (orphan r1)
  from remove_orphan_logs [OF orphan(2) assms(3,4)]
  show ?thesis using preserve_transcript_state_logged [OF orphan(3)] by simp
qed

subsection \<open>The state entry of an id\<close>

lemma sync_document_other_key:
  assumes "sync_document force dry st fns x r = Inr r'" and "fst x \<noteq> i"
  shows "map_of (r_state r') i = map_of (r_state r) i"
  using assms by (cases rule: sync_document_cases) (simp_all add: map_of_dict_set)

lemma export_transcript_other_key:
  assumes "export_transcript dry st all_data fns x r = Inr r'"
    and "fst x \<noteq> i \<or> map_of all_data i = None"
  shows "map_of (r_state r') i = map_of (r_state r) i"
  using assms by (cases rule: export_transcript_cases) (auto simp: map_of_dict_set)

lemma remove_orphan_state [simp]:
  assumes "remove_orphan dry prev r = Inr r'"
  shows "r_state r' = r_state r"
  using assms by (cases rule: remove_orphan_cases) simp_all

lemma cleanup_orphan_other_key:
  assumes "cleanup_orphan dry all_data x r = Inr r'" and "fst x \<noteq> i"
  shows "map_of (r_state r') i = map_of (r_state r) i"
  using assms(1)
proof (cases rule: cleanup_orphan_cases)
  case current
  then show ?thesis by simp
next
  case (orphan r1)
  from orphan(3) assms(2) remove_orphan_state [OF orphan(2)] show ?thesis
    by (cases rule: preserve_transcript_state_cases) (simp_all add: map_of_dict_set)
qed

lemma cleanup_orphan_own_key:
  assumes "cleanup_orphan dry all_data x r = Inr r'" and "map_of all_data (fst x) = None"
    and "map_of (r_state r) (fst x) = None"
  shows "map_of (r_state r') (fst x)
           = (if e_transcript_saved (snd x) = Some True
              then Some \<lparr> e_updated_at = None, e_filename = None, e_transcript_saved = Some True,
                          e_transcript_filename = e_transcript_filename (snd x) \<rparr>
              else None)"
  using assms(1)
proof (cases rule: cleanup_orphan_cases)
  case current
  with assms(2) show ?thesis by simp
next
  case (orphan r1)
  from orphan(3) assms(3) remove_orphan_state [OF orphan(2)] show ?thesis
    by (cases rule: preserve_transcript_state_cases) (simp_all add: map_of_dict_set)
qed

lemma cleanup_orphan_transcript_filename:
  assumes "cleanup_orphan dry all_data x r = Inr r'" and "map_of all_data (fst x) = None"
    and "e_transcript_saved (snd x) = Some True"
  shows "e_transcript_filename (snd x) \<noteq> None"
  using assms(1)
proof (cases rule: cleanup_orphan_cases)
  case current
  with assms(2) show ?thesis by simp
next
  case (orphan r1)
  from orphan(3) assms(3) show ?thesis
    by (cases rule: preserve_transcript_state_cases) simp_all
qed

subsection \<open>Which files a run deletes\<close>

lemma state_get_recorded: "e_filename (state_get st i) = Some f \<Longrightarrow> recorded st f"
  by (force simp: state_get_def recorded_def split: option.splits dest!: map_of_SomeD)

lemma sync_document_removes_recorded:
  assumes "sync_document force dry st fns x r = Inr r'"
    and "\<forall>f. removal_logged f r \<longrightarrow> recorded st f"
  shows "\<forall>f. removal_logged f r' \<longrightarrow> recorded st f"
  using assms
  by (cases rule: sync_document_cases) (auto simp: removal_logged_def dest: state_get_recorded)

lemma export_transcript_removes_recorded:
  assumes "export_transcript dry st all_data fns x r = Inr r'"
    and "\<forall>f. removal_logged f r \<longrightarrow> recorded st' f"
  shows "\<forall>f. removal_logged f r' \<longrightarrow> recorded st' f"
  using assms
  by (cases rule: export_transcript_cases) (auto simp: removal_logged_def)

lemma cleanup_orphan_removes_recorded:
  assumes "cleanup_orphan dry all_data x r = Inr r'" and "x \<in> set st"
    and "\<forall>f. removal_logged f r \<longrightarrow> recorded st f"
  shows "\<forall>f. removal_logged f r' \<longrightarrow> recorded st f"
  using assms(1)
proof (cases rule: cleanup_orphan_cases)
  case current
  with assms(3) show ?thesis by simp
next
  case (orphan r1)
  from orphan(2) assms(2,3) have "\<forall>f. removal_logged f r1 \<longrightarrow> recorded st f"
    by (cases rule: remove_orphan_cases) (auto simp: removal_logged_def recorded_def)
  then show ?thesis
    using preserve_transcript_state_logged [OF orphan(3)] by simp
qed

subsection \<open>Runs that complete, and what a forced run writes\<close>

lemma for_each_total:
  assumes "\<And>x s. x \<in> set xs \<Longrightarrow> \<exists>s'. body x s = Inr s'"
  shows "\<exists>s'. for_each body xs s = Inr s'"
  using assms
proof (induction xs arbitrary: s)
  case Nil
  show ?case by simp
next
  case (Cons x xs)
  from Cons.prems [of x s] obtain s1 where "body x s = Inr s1" by auto
  moreover from Cons.IH [of s1] Cons.prems obtain s' where "for_each body xs s1 = Inr s'"
    by auto
  ultimately show ?case by simp
qed

lemma sync_document_total:
  "map_of fns (fst x) \<noteq> None \<Longrightarrow> \<exists>r'. sync_document force dry st fns x r = Inr r'"
  by (auto simp: sync_document_def Let_def)

lemma export_transcript_total: "\<exists>r'. export_transcript dry st all_data fns x r = Inr r'"
  by (simp add: export_transcript_def Let_def split: option.splits)

lemma assign_filenames_total:
  assumes "distinct (map fst all_data)" and "x \<in> set all_data"
  shows "map_of (assign_filenames all_data) (fst x) \<noteq> None"
  using assign_filenames_eq [OF assms(1), of "fst x" "snd x"] assms(2) by simp

lemma sync_document_keeps_action:
  "sync_document force dry st fns x r = Inr r' \<Longrightarrow> a \<in> set (r_actions r)
     \<Longrightarrow> a \<in> set (r_actions r')"
  using sync_document_actions_mono by blast

lemma export_transcript_keeps_action:
  "export_transcript dry st all_data fns x r = Inr r' \<Longrightarrow> a \<in> set (r_actions r)
     \<Longrightarrow> a \<in> set (r_actions r')"
  using export_transcript_actions_mono by blast

lemma cleanup_orphan_keeps_action:
  "cleanup_orphan dry all_data x r = Inr r' \<Longrightarrow> a \<in> set (r_actions r)
     \<Longrightarrow> a \<in> set (r_actions r')"
  using cleanup_orphan_actions_mono by blast

lemma sync_document_force_writes:
  assumes "sync_document True dry st fns x r = Inr r'"
  shows "\<exists>f. map_of fns (fst x) = Some f \<and> WriteNotes (fst x) f \<in> set (r_actions r')"
  using assms by (cases rule: sync_document_cases) auto

lemma sync_document_force_fresh:
  assumes "sync_document True dry st fns x r = Inr r'"
    and "\<forall>i e. map_of (r_state r) i = Some e \<longrightarrow> e_transcript_saved e = None"
  shows "\<forall>i e. map_of (r_state r') i = Some e \<longrightarrow> e_transcript_saved e = None"
  using assms
  by (cases rule: sync_document_cases) (auto simp: map_of_dict_set new_entry_def)

lemma export_transcript_writes:
  assumes "export_transcript dry st all_data fns x r = Inr r'"
    and "map_of all_data (fst x) = Some d" and "snd x \<noteq> []"
    and "e_transcript_saved (transcript_prev st r (fst x)) \<noteq> Some True"
  shows "WriteTranscript (fst x) (transcript_name d) \<in> set (r_actions r')"
  using assms by (cases rule: export_transcript_cases) auto

subsection \<open>The force option\<close>

text \<open>
  C1, as the claim states it, fails. In the run below the prior state has an entry for
  the document \<open>a1\<close> with \<^verbatim>\<open>transcript_saved\<close> set and with the notes file name
  \<open>old.md\<close>, a file that exists and differs from the name the run assigns. With the
  force option the run writes the transcript again and deletes nothing.
\<close>

theorem force_counterexample:
  "sync_records True False [(''a1'', example_meeting ''a1'' ''Weekly Sync'' ''v1'')]
     example_transcripts
     {''old.md'', ''2026-01-05_weekly-sync_transcript.md''}
     [(''a1'', example_entry_with_transcript ''v1'' ''old.md''
                ''2026-01-05_weekly-sync_transcript.md'')]
   = Inr (example_outcome
       {''old.md'', ''2026-01-05_weekly-sync.md'', ''2026-01-05_weekly-sync_transcript.md''}
       [(''a1'', example_entry_with_transcript ''v1'' ''2026-01-05_weekly-sync.md''
                  ''2026-01-05_weekly-sync_transcript.md'')]
       [WriteNotes ''a1'' ''2026-01-05_weekly-sync.md'',
        WriteTranscript ''a1'' ''2026-01-05_weekly-sync_transcript.md'']
       (1, 0, 0, 0, 1))"
  by code_simp

text \<open>
  C1, amended. With the force option the prior state is not consulted at all: the run
  completes, and its actions, its files and its new state are those of the same run on
  an empty prior state. It emits no delete action, neither for a renamed file nor for an
  orphan; it emits a write action for the assigned file name of every current record;
  and it emits a transcript write action for every id that has utterances and a current
  record, whether or not the prior entry of the id has \<^verbatim>\<open>transcript_saved\<close> set. The
  records and the transcripts are dictionaries: their ids are distinct.
\<close>

theorem force_ignores_prior_state:
  assumes ids: "distinct (map fst all_data)" and keys: "distinct (map fst transcripts)"
  shows "\<exists>out out0.
           sync_records True dry_run all_data transcripts fs stored = Inr out
         \<and> sync_records True dry_run all_data transcripts fs [] = Inr out0
         \<and> actions out = actions out0 \<and> files out = files out0
         \<and> new_sync_state out = new_sync_state out0
         \<and> (\<forall>f. RemoveOld f \<notin> set (actions out) \<and> RemoveOrphan f \<notin> set (actions out))
         \<and> (\<forall>item \<in> set all_data.
               \<exists>f. map_of (assign_filenames all_data) (fst item) = Some f
                   \<and> WriteNotes (fst item) f \<in> set (actions out))
         \<and> (\<forall>item \<in> set transcripts. \<forall>d.
               snd item \<noteq> [] \<and> map_of all_data (fst item) = Some d \<longrightarrow>
               WriteTranscript (fst item) (transcript_name d) \<in> set (actions out))"
proof -
  let ?r0 = "\<lparr> r_files = fs, r_state = [], r_actions = [], r_created = 0, r_updated = 0,
               r_skipped = 0, r_removed = 0, r_transcripts_saved = 0 \<rparr>"
  let ?fns = "assign_filenames all_data"
  let ?main = "sync_document True dry_run [] ?fns"
  let ?trans = "export_transcript dry_run [] all_data ?fns"
  obtain r1 where main: "for_each ?main all_data ?r0 = Inr r1"
    using for_each_total [of all_data ?main ?r0]
      sync_document_total [OF assign_filenames_total [OF ids]] by blast
  obtain r2 where trans: "for_each ?trans transcripts r1 = Inr r2"
    using for_each_total [of transcripts ?trans r1] export_transcript_total by blast
  let ?out = "\<lambda>st. \<lparr> files = r_files r2, persisted = (if \<not> dry_run then r_state r2 else st),
             new_sync_state = r_state r2, actions = r_actions r2, created = r_created r2,
             updated = r_updated r2, skipped = r_skipped r2, removed = r_removed r2,
             transcripts_saved = r_transcripts_saved r2 \<rparr>"
  have run: "sync_records True dry_run all_data transcripts fs st = Inr (?out st)" for st
    by (simp add: sync_records_def Let_def main trans)
  \<comment> \<open>nothing is deleted\<close>
  have "\<forall>f. removal_logged f ?r0 \<longrightarrow> recorded [] f"
    by (simp add: removal_logged_def)
  with main have "\<forall>f. removal_logged f r1 \<longrightarrow> recorded [] f"
    by (rule for_each_invariant) (rule sync_document_removes_recorded)
  with trans have "\<forall>f. removal_logged f r2 \<longrightarrow> recorded [] f"
    by (rule for_each_invariant) (rule export_transcript_removes_recorded)
  then have no_removal: "\<forall>f. RemoveOld f \<notin> set (r_actions r2) \<and> RemoveOrphan f \<notin> set (r_actions r2)"
    by (auto simp: removal_logged_def recorded_def)
  \<comment> \<open>every record is written\<close>
  have written: "\<exists>f. map_of ?fns (fst x) = Some f \<and> WriteNotes (fst x) f \<in> set (r_actions r2)"
    if x: "x \<in> set all_data" for x
  proof -
    from for_each_split [OF main x] obtain post s1 s2 where
      step: "?main x s1 = Inr s2" and post: "for_each ?main post s2 = Inr r1"
      by blast
    from sync_document_force_writes [OF step] obtain f where
      f: "map_of ?fns (fst x) = Some f" "WriteNotes (fst x) f \<in> set (r_actions s2)"
      by blast
    from post f(2) have "WriteNotes (fst x) f \<in> set (r_actions r1)"
      by (rule for_each_invariant) (rule sync_document_keeps_action)
    with trans have "WriteNotes (fst x) f \<in> set (r_actions r2)"
      by (rule for_each_invariant) (rule export_transcript_keeps_action)
    with f(1) show ?thesis by blast
  qed
  \<comment> \<open>every transcript is written\<close>
  have "\<forall>i e. map_of (r_state ?r0) i = Some e \<longrightarrow> e_transcript_saved e = None"
    by simp
  with main have fresh: "\<forall>i e. map_of (r_state r1) i = Some e \<longrightarrow> e_transcript_saved e = None"
    by (rule for_each_invariant) (rule sync_document_force_fresh)
  have transcript: "WriteTranscript (fst x) (transcript_name d) \<in> set (r_actions r2)"
    if x: "x \<in> set transcripts" and us: "snd x \<noteq> []" and d: "map_of all_data (fst x) = Some d"
    for x d
  proof -
    from for_each_split [OF trans x] obtain pre post s1 s2 where
      split: "transcripts = pre @ x # post"
      and pre: "for_each ?trans pre r1 = Inr s1"
      and step: "?trans x s1 = Inr s2" and post: "for_each ?trans post s2 = Inr r2"
      by blast
    from keys have "fst x \<notin> fst ` set pre"
      unfolding split by auto
    then have others: "\<And>y. y \<in> set pre \<Longrightarrow> fst y \<noteq> fst x"
      by (metis imageI)
    have "map_of (r_state r1) (fst x) = map_of (r_state r1) (fst x)" ..
    with pre have "map_of (r_state s1) (fst x) = map_of (r_state r1) (fst x)"
    proof (rule for_each_invariant)
      fix y s s'
      assume "y \<in> set pre" "map_of (r_state s) (fst x) = map_of (r_state r1) (fst x)"
        "?trans y s = Inr s'"
      with others export_transcript_other_key [of dry_run "[]" all_data ?fns y s s' "fst x"]
      show "map_of (r_state s') (fst x) = map_of (r_state r1) (fst x)" by simp
    qed
    with fresh have "e_transcript_saved (transcript_prev [] s1 (fst x)) \<noteq> Some True"
      by (auto simp: transcript_prev_def state_get_def split: option.splits)
    from export_transcript_writes [OF step d us this]
    have "WriteTranscript (fst x) (transcript_name d) \<in> set (r_actions s2)" .
    with post show ?thesis
      by (rule for_each_invariant) (rule export_transcript_keeps_action)
  qed
  show ?thesis
    using run [of stored] run [of "[]"] no_removal written transcript
    by (intro exI [of _ "?out stored"] exI [of _ "?out []"]) auto
qed

theorem force_ignores_prior_state_witness:
  "distinct (map fst [(''a1'', example_meeting ''a1'' ''Weekly Sync'' ''v1'')])
   \<and> distinct (map fst example_transcripts)
   \<and> (\<exists>out. sync_records True False [(''a1'', example_meeting ''a1'' ''Weekly Sync'' ''v1'')]
               example_transcripts {''old.md''}
               [(''a1'', example_entry_with_transcript ''v1'' ''old.md'' ''t.md'')] = Inr out
           \<and> RemoveOld ''old.md'' \<notin> set (actions out)
           \<and> WriteNotes ''a1'' ''2026-01-05_weekly-sync.md'' \<in> set (actions out)
           \<and> WriteTranscript ''a1'' ''2026-01-05_weekly-sync_transcript.md'' \<in> set (actions out))"
proof -
  let ?recs = "[(''a1'', example_meeting ''a1'' ''Weekly Sync'' ''v1'')]"
  have ids: "distinct (map fst ?recs)"
    by simp
  have keys: "distinct (map fst example_transcripts)"
    by (simp add: example_transcripts_def)
  have name: "map_of (assign_filenames ?recs) ''a1'' = Some ''2026-01-05_weekly-sync.md''"
    by code_simp
  have transcript: "transcript_name (example_meeting ''a1'' ''Weekly Sync'' ''v1'')
                      = ''2026-01-05_weekly-sync_transcript.md''"
    by code_simp
  from force_ignores_prior_state [OF ids keys, of False "{''old.md''}"
         "[(''a1'', example_entry_with_transcript ''v1'' ''old.md'' ''t.md'')]"]
  obtain out where
    run: "sync_records True False ?recs example_transcripts {''old.md''}
            [(''a1'', example_entry_with_transcript ''v1'' ''old.md'' ''t.md'')] = Inr out"
    and none: "\<forall>f. RemoveOld f \<notin> set (actions out) \<and> RemoveOrphan f \<notin> set (actions out)"
    and written: "\<forall>item \<in> set ?recs.
               \<exists>f. map_of (assign_filenames ?recs) (fst item) = Some f
                   \<and> WriteNotes (fst item) f \<in> set (actions out)"
    and saved: "\<forall>item \<in> set example_transcripts. \<forall>d.
               snd item \<noteq> [] \<and> map_of ?recs (fst item) = Some d \<longrightarrow>
               WriteTranscript (fst item) (transcript_name d) \<in> set (actions out)"
    by blast
  from written name have "WriteNotes ''a1'' ''2026-01-05_weekly-sync.md'' \<in> set (actions out)"
    by simp
  moreover from saved transcript
  have "WriteTranscript ''a1'' ''2026-01-05_weekly-sync_transcript.md'' \<in> set (actions out)"
    by (simp add: example_transcripts_def)
  ultimately show ?thesis
    using ids keys run none by blast
qed

subsection \<open>Transcripts of updated records\<close>

text \<open>
  C2 holds on a record whose version token is unchanged and fails on a record whose
  token has changed. In the run below the prior entry of the document \<open>a1\<close> has
  \<^verbatim>\<open>transcript_saved\<close> set and the token \<open>v1\<close>; the record now has the token
  \<open>v2\<close>, and utterances are supplied. The loop over the documents replaces the entry
  by one without \<^verbatim>\<open>transcript_saved\<close>, the transcript loop reads that new entry, and
  the transcript is written again.
\<close>

theorem updated_record_transcript_rewritten:
  "sync_records False False [(''a1'', example_meeting ''a1'' ''Weekly Sync'' ''v2'')]
     example_transcripts
     {''2026-01-05_weekly-sync.md'', ''2026-01-05_weekly-sync_transcript.md''}
     [(''a1'', example_entry_with_transcript ''v1'' ''2026-01-05_weekly-sync.md''
                ''2026-01-05_weekly-sync_transcript.md'')]
   = Inr (example_outcome
       {''2026-01-05_weekly-sync.md'', ''2026-01-05_weekly-sync_transcript.md''}
       [(''a1'', example_entry_with_transcript ''v2'' ''2026-01-05_weekly-sync.md''
                  ''2026-01-05_weekly-sync_transcript.md'')]
       [WriteNotes ''a1'' ''2026-01-05_weekly-sync.md'',
        WriteTranscript ''a1'' ''2026-01-05_weekly-sync_transcript.md'']
       (0, 1, 0, 0, 1))"
  by code_simp

text \<open>The same run on the unchanged record writes nothing.\<close>

lemma unchanged_record_transcript_kept:
  "sync_records False False [(''a1'', example_meeting ''a1'' ''Weekly Sync'' ''v1'')]
     example_transcripts
     {''2026-01-05_weekly-sync.md'', ''2026-01-05_weekly-sync_transcript.md''}
     [(''a1'', example_entry_with_transcript ''v1'' ''2026-01-05_weekly-sync.md''
                ''2026-01-05_weekly-sync_transcript.md'')]
   = Inr (example_outcome
       {''2026-01-05_weekly-sync.md'', ''2026-01-05_weekly-sync_transcript.md''}
       [(''a1'', example_entry_with_transcript ''v1'' ''2026-01-05_weekly-sync.md''
                  ''2026-01-05_weekly-sync_transcript.md'')]
       []
       (0, 0, 1, 0, 0))"
  by code_simp

subsection \<open>Running twice\<close>

text \<open>
  C5 fails when the first run leaves a tombstone. Below, the document \<open>a1\<close> has left
  the cache and its prior entry has \<^verbatim>\<open>transcript_saved\<close> set. The first run deletes
  the notes file and keeps the tombstone, an entry without \<^verbatim>\<open>filename\<close>. The second
  run, on the directory and the state that the first run produced, joins the output
  directory with the empty default name, finds that this path exists and calls
  \<^verbatim>\<open>os.remove\<close> on the directory: the run ends with an exception instead of an empty
  list of actions.
\<close>

theorem second_run_after_tombstone_fails:
  "sync_records False False [] []
     {''2026-01-05_weekly-sync.md'', ''2026-01-05_weekly-sync_transcript.md''}
     [(''a1'', example_entry_with_transcript ''v1'' ''2026-01-05_weekly-sync.md''
                ''2026-01-05_weekly-sync_transcript.md'')]
   = Inr (example_outcome
       {''2026-01-05_weekly-sync_transcript.md''}
       [(''a1'', \<lparr> e_updated_at = None, e_filename = None, e_transcript_saved = Some True,
                   e_transcript_filename = Some ''2026-01-05_weekly-sync_transcript.md'' \<rparr>)]
       [RemoveOrphan ''2026-01-05_weekly-sync.md'']
       (0, 0, 0, 1, 0))
   \<and> sync_records False False [] []
       {''2026-01-05_weekly-sync_transcript.md''}
       [(''a1'', \<lparr> e_updated_at = None, e_filename = None, e_transcript_saved = Some True,
                   e_transcript_filename = Some ''2026-01-05_weekly-sync_transcript.md'' \<rparr>)]
     = Inl IsADirectoryError"
  by code_simp

subsection \<open>Dry runs\<close>

text \<open>
  C6 fails on the counters of created and updated documents. Below, one new document
  is synchronised into an empty directory. The dry run leaves the directory and the
  stored state as they are and announces the write, but its summary counts no created
  document, where the summary of the real run counts one: \<^verbatim>\<open>created\<close> and
  \<^verbatim>\<open>updated\<close> are incremented in the branch that writes the file only, whereas
  \<^verbatim>\<open>removed\<close> and \<^verbatim>\<open>transcripts_saved\<close> are incremented in both modes.
\<close>

theorem dry_run_counts_nothing_created:
  "sync_records False True [(''a1'', example_meeting ''a1'' ''Weekly Sync'' ''v1'')] [] {} []
     = Inr ((example_outcome {}
               [(''a1'', example_entry ''v1'' ''2026-01-05_weekly-sync.md'')]
               [WriteNotes ''a1'' ''2026-01-05_weekly-sync.md'']
               (0, 0, 0, 0, 0)) \<lparr> persisted := [] \<rparr>)
   \<and> sync_records False False [(''a1'', example_meeting ''a1'' ''Weekly Sync'' ''v1'')] [] {} []
     = Inr (example_outcome {''2026-01-05_weekly-sync.md''}
               [(''a1'', example_entry ''v1'' ''2026-01-05_weekly-sync.md'')]
               [WriteNotes ''a1'' ''2026-01-05_weekly-sync.md'']
               (1, 0, 0, 0, 0))
   \<and> summary_line True
         ((example_outcome {}
               [(''a1'', example_entry ''v1'' ''2026-01-05_weekly-sync.md'')]
               [WriteNotes ''a1'' ''2026-01-05_weekly-sync.md'']
               (0, 0, 0, 0, 0)) \<lparr> persisted := [] \<rparr>)
     = ''[DRY RUN] Sync complete: 0 created, 0 updated, 0 unchanged, 0 removed''
   \<and> summary_line False
         (example_outcome {''2026-01-05_weekly-sync.md''}
               [(''a1'', example_entry ''v1'' ''2026-01-05_weekly-sync.md'')]
               [WriteNotes ''a1'' ''2026-01-05_weekly-sync.md'']
               (1, 0, 0, 0, 0))
     = ''Sync complete: 1 created, 0 updated, 0 unchanged, 0 removed''"
  by code_simp

text \<open>
  A dry run that removes an orphan and saves a transcript does count both, which is
  what the claim says of every counter.
\<close>

lemma dry_run_counts_removed_and_saved:
  "sync_records False True [(''a1'', example_meeting ''a1'' ''Weekly Sync'' ''v1'')]
     example_transcripts
     {''2026-01-05_weekly-sync.md'', ''gone.md''}
     [(''a1'', example_entry ''v1'' ''2026-01-05_weekly-sync.md''),
      (''b2'', example_entry ''v1'' ''gone.md'')]
   = Inr ((example_outcome {''2026-01-05_weekly-sync.md'', ''gone.md''}
             [(''a1'', example_entry_with_transcript ''v1'' ''2026-01-05_weekly-sync.md''
                        ''2026-01-05_weekly-sync_transcript.md'')]
             [WriteTranscript ''a1'' ''2026-01-05_weekly-sync_transcript.md'',
              RemoveOrphan ''gone.md'']
             (0, 0, 1, 1, 1))
          \<lparr> persisted := [(''a1'', example_entry ''v1'' ''2026-01-05_weekly-sync.md''),
                            (''b2'', example_entry ''v1'' ''gone.md'')] \<rparr>)"
  by code_simp

subsection \<open>Documents that left the cache\<close>

text \<open>
  C7, as the claim states it, fails: the notes file of an orphan is deleted only if it
  exists. Below, the prior state records a notes file for the document \<open>a1\<close>, the
  document has left the cache and the file is not in the directory: the run emits no
  delete action and counts nothing removed.
\<close>

theorem missing_orphan_file_counterexample:
  "sync_records False False [] [] {} [(''a1'', example_entry ''v1'' ''2026-01-05_weekly-sync.md'')]
     = Inr (example_outcome {} [] [] (0, 0, 0, 0, 0))"
  by code_simp

text \<open>
  C7, amended. Consider a run without the force option that completes, and an id of the
  prior state (a dictionary: its ids are distinct) that is absent from the current
  collection.
  \<^item> If the prior entry records a notes file and that file is in the directory when the
    run starts, the run emits a delete action for it.
  \<^item> If the prior entry has \<^verbatim>\<open>transcript_saved\<close> set, it has a transcript file name,
    and the new state maps the id to the tombstone made of these two fields only.
  \<^item> Otherwise the id is absent from the new state.
  \<^item> Every delete action of the run targets a name that some entry of the prior state
    records as its notes file: a transcript file is never deleted, unless its name is
    also recorded as a notes file.
  \<^item> Unless the run is a dry run, the new state is the state it stores.
\<close>

theorem orphan_cleanup:
  assumes run: "sync_records False dry_run all_data transcripts fs stored = Inr out"
    and dist: "distinct (map fst stored)"
    and mem: "(doc_id, prev) \<in> set stored"
    and gone: "doc_id \<notin> fst ` set all_data"
  shows "(\<forall>f. e_filename prev = Some f \<and> f \<in> fs \<longrightarrow>
            RemoveOld f \<in> set (actions out) \<or> RemoveOrphan f \<in> set (actions out))
       \<and> (e_transcript_saved prev = Some True \<longrightarrow>
            e_transcript_filename prev \<noteq> None
            \<and> map_of (new_sync_state out) doc_id
                = Some \<lparr> e_updated_at = None, e_filename = None, e_transcript_saved = Some True,
                         e_transcript_filename = e_transcript_filename prev \<rparr>)
       \<and> (e_transcript_saved prev \<noteq> Some True \<longrightarrow> map_of (new_sync_state out) doc_id = None)
       \<and> (\<forall>f. RemoveOld f \<in> set (actions out) \<or> RemoveOrphan f \<in> set (actions out) \<longrightarrow>
            (\<exists>item \<in> set stored. e_filename (snd item) = Some f))
       \<and> (\<not> dry_run \<longrightarrow> persisted out = new_sync_state out)"
proof -
  let ?r0 = "\<lparr> r_files = fs, r_state = [], r_actions = [], r_created = 0, r_updated = 0,
               r_skipped = 0, r_removed = 0, r_transcripts_saved = 0 \<rparr>"
  let ?fns = "assign_filenames all_data"
  from run obtain r1 r2 r3 where
    main: "for_each (sync_document False dry_run stored ?fns) all_data ?r0 = Inr r1"
    and trans: "for_each (export_transcript dry_run stored all_data ?fns) transcripts r1 = Inr r2"
    and orph: "for_each (cleanup_orphan dry_run all_data) stored r2 = Inr r3"
    and out: "new_sync_state out = r_state r3" "actions out = r_actions r3"
      "persisted out = (if \<not> dry_run then r_state r3 else stored)"
    by (rule sync_records_InrD) simp_all
  from gone have absent: "map_of all_data doc_id = None"
    by (simp add: map_of_eq_None_iff)
  from for_each_split [OF orph mem] obtain pre post s1 s2 where
    split: "stored = pre @ (doc_id, prev) # post"
    and pre: "for_each (cleanup_orphan dry_run all_data) pre r2 = Inr s1"
    and step: "cleanup_orphan dry_run all_data (doc_id, prev) s1 = Inr s2"
    and post: "for_each (cleanup_orphan dry_run all_data) post s2 = Inr r3"
    by blast
  from dist have "doc_id \<notin> fst ` set pre" "doc_id \<notin> fst ` set post"
    unfolding split by auto
  then have others: "\<And>x. x \<in> set pre \<or> x \<in> set post \<Longrightarrow> fst x \<noteq> doc_id"
    by auto
  \<comment> \<open>the notes file is deleted\<close>
  have deleted: "removal_logged f r3" if f: "e_filename prev = Some f" "f \<in> fs" for f
  proof -
    have "f \<in> r_files ?r0 \<or> removal_logged f ?r0" using f by simp
    with main have "f \<in> r_files r1 \<or> removal_logged f r1"
      by (rule for_each_invariant) (rule sync_document_keeps_or_logs)
    with trans have "f \<in> r_files r2 \<or> removal_logged f r2"
      by (rule for_each_invariant) (rule export_transcript_keeps_or_logs)
    with pre have "f \<in> r_files s1 \<or> removal_logged f s1"
      by (rule for_each_invariant) (rule cleanup_orphan_keeps_or_logs)
    with step absent f(1) have "removal_logged f s2"
      by (intro cleanup_orphan_logs [of dry_run all_data "(doc_id, prev)" s1 s2 f]) simp_all
    with post show ?thesis
      by (rule for_each_invariant) (rule cleanup_orphan_keeps_logged)
  qed
  \<comment> \<open>the state entry of the id\<close>
  have "map_of (r_state ?r0) doc_id = None" by simp
  with main have "map_of (r_state r1) doc_id = None"
  proof (rule for_each_invariant)
    fix x s s'
    assume "x \<in> set all_data" "map_of (r_state s) doc_id = None"
      "sync_document False dry_run stored ?fns x s = Inr s'"
    with gone sync_document_other_key [of False dry_run stored ?fns x s s' doc_id]
    show "map_of (r_state s') doc_id = None" by force
  qed
  with trans have "map_of (r_state r2) doc_id = None"
  proof (rule for_each_invariant)
    fix x s s'
    assume "map_of (r_state s) doc_id = None"
      "export_transcript dry_run stored all_data ?fns x s = Inr s'"
    with absent export_transcript_other_key [of dry_run stored all_data ?fns x s s' doc_id]
    show "map_of (r_state s') doc_id = None" by simp
  qed
  with pre have before: "map_of (r_state s1) doc_id = None"
  proof (rule for_each_invariant)
    fix x s s'
    assume "x \<in> set pre" "map_of (r_state s) doc_id = None"
      "cleanup_orphan dry_run all_data x s = Inr s'"
    with others cleanup_orphan_other_key [of dry_run all_data x s s' doc_id]
    show "map_of (r_state s') doc_id = None" by simp
  qed
  let ?entry = "if e_transcript_saved prev = Some True
              then Some \<lparr> e_updated_at = None, e_filename = None, e_transcript_saved = Some True,
                          e_transcript_filename = e_transcript_filename prev \<rparr>
              else None"
  from cleanup_orphan_own_key [OF step] absent before
  have "map_of (r_state s2) doc_id = ?entry" by simp
  with post have entry: "map_of (r_state r3) doc_id = ?entry"
  proof (rule for_each_invariant)
    fix x s s'
    assume "x \<in> set post" "map_of (r_state s) doc_id = ?entry"
      "cleanup_orphan dry_run all_data x s = Inr s'"
    with others cleanup_orphan_other_key [of dry_run all_data x s s' doc_id]
    show "map_of (r_state s') doc_id = ?entry" by simp
  qed
  from cleanup_orphan_transcript_filename [OF step] absent
  have named: "e_transcript_saved prev = Some True \<Longrightarrow> e_transcript_filename prev \<noteq> None"
    by simp
  \<comment> \<open>every deleted file is recorded as a notes file\<close>
  have "\<forall>f. removal_logged f ?r0 \<longrightarrow> recorded stored f"
    by (simp add: removal_logged_def)
  with main have "\<forall>f. removal_logged f r1 \<longrightarrow> recorded stored f"
    by (rule for_each_invariant) (rule sync_document_removes_recorded)
  with trans have "\<forall>f. removal_logged f r2 \<longrightarrow> recorded stored f"
    by (rule for_each_invariant) (rule export_transcript_removes_recorded)
  with orph have only_recorded: "\<forall>f. removal_logged f r3 \<longrightarrow> recorded stored f"
    by (rule for_each_invariant) (rule cleanup_orphan_removes_recorded)
  from deleted entry named only_recorded out
  show ?thesis
    by (simp add: removal_logged_def recorded_def)
qed

theorem orphan_cleanup_witness:
  "distinct (map fst [(''a1'', example_entry_with_transcript ''v1'' ''2026-01-05_weekly-sync.md''
                                 ''2026-01-05_weekly-sync_transcript.md''),
                      (''b2'', example_entry ''v1'' ''2026-01-05_planning.md'')])
   \<and> (\<exists>out. sync_records False False [] []
               {''2026-01-05_weekly-sync.md'', ''2026-01-05_weekly-sync_transcript.md'',
                ''2026-01-05_planning.md''}
               [(''a1'', example_entry_with_transcript ''v1'' ''2026-01-05_weekly-sync.md''
                          ''2026-01-05_weekly-sync_transcript.md''),
                (''b2'', example_entry ''v1'' ''2026-01-05_planning.md'')] = Inr out
           \<and> RemoveOrphan ''2026-01-05_weekly-sync.md'' \<in> set (actions out)
           \<and> RemoveOrphan ''2026-01-05_planning.md'' \<in> set (actions out)
           \<and> RemoveOrphan ''2026-01-05_weekly-sync_transcript.md'' \<notin> set (actions out)
           \<and> RemoveOld ''2026-01-05_weekly-sync_transcript.md'' \<notin> set (actions out)
           \<and> map_of (new_sync_state out) ''a1''
               = Some \<lparr> e_updated_at = None, e_filename = None, e_transcript_saved = Some True,
                        e_transcript_filename = Some ''2026-01-05_weekly-sync_transcript.md'' \<rparr>
           \<and> map_of (new_sync_state out) ''b2'' = None
           \<and> persisted out = new_sync_state out)"
proof -
  let ?a = "example_entry_with_transcript ''v1'' ''2026-01-05_weekly-sync.md''
              ''2026-01-05_weekly-sync_transcript.md''"
  let ?b = "example_entry ''v1'' ''2026-01-05_planning.md''"
  let ?stored = "[(''a1'', ?a), (''b2'', ?b)]"
  let ?fs = "{''2026-01-05_weekly-sync.md'', ''2026-01-05_weekly-sync_transcript.md'',
              ''2026-01-05_planning.md''}"
  let ?out = "example_outcome {''2026-01-05_weekly-sync_transcript.md''}
       [(''a1'', \<lparr> e_updated_at = None, e_filename = None, e_transcript_saved = Some True,
                   e_transcript_filename = Some ''2026-01-05_weekly-sync_transcript.md'' \<rparr>)]
       [RemoveOrphan ''2026-01-05_weekly-sync.md'', RemoveOrphan ''2026-01-05_planning.md'']
       (0, 0, 0, 2, 0)"
  have run: "sync_records False False [] [] ?fs ?stored = Inr ?out"
    by code_simp
  have dist: "distinct (map fst ?stored)"
    by simp
  have gone: "''a1'' \<notin> fst ` set ([] :: (string \<times> meeting) list)"
    "''b2'' \<notin> fst ` set ([] :: (string \<times> meeting) list)"
    by simp_all
  have a: "e_filename ?a = Some ''2026-01-05_weekly-sync.md''" "e_transcript_saved ?a = Some True"
    "e_transcript_filename ?a = Some ''2026-01-05_weekly-sync_transcript.md''"
    by (simp_all add: example_entry_with_transcript_def)
  have b: "e_filename ?b = Some ''2026-01-05_planning.md''" "e_transcript_saved ?b \<noteq> Some True"
    by (simp_all add: example_entry_def)
  have acts: "actions ?out
      = [RemoveOrphan ''2026-01-05_weekly-sync.md'', RemoveOrphan ''2026-01-05_planning.md'']"
    by (simp add: example_outcome_def)
  from orphan_cleanup [OF run dist _ gone(1), of ?a] a
  have "map_of (new_sync_state ?out) ''a1''
          = Some \<lparr> e_updated_at = None, e_filename = None, e_transcript_saved = Some True,
                   e_transcript_filename = Some ''2026-01-05_weekly-sync_transcript.md'' \<rparr>"
    and "persisted ?out = new_sync_state ?out"
    and only: "\<forall>f. RemoveOld f \<in> set (actions ?out) \<or> RemoveOrphan f \<in> set (actions ?out) \<longrightarrow>
            (\<exists>item \<in> set ?stored. e_filename (snd item) = Some f)"
    by simp_all
  moreover from orphan_cleanup [OF run dist _ gone(2), of ?b] b
  have "map_of (new_sync_state ?out) ''b2'' = None"
    by simp
  moreover from only a b
  have "RemoveOrphan ''2026-01-05_weekly-sync_transcript.md'' \<notin> set (actions ?out)"
    "RemoveOld ''2026-01-05_weekly-sync_transcript.md'' \<notin> set (actions ?out)"
    by auto
  ultimately show ?thesis
    using dist run acts by (intro conjI exI [of _ ?out]) simp_all
qed

end
